theory Spec2Isabelle
  imports Main "HOL-Library.AList"
begin

section \<open>Strings as the sandbox sees them\<close>

text \<open>
  Strings are lists of code units in the range U+0000..U+00FF. On that range
  \<^verbatim>\<open>String.prototype.toLowerCase\<close> maps A..Z and the upper-case letters
  U+00C0..U+00DE (without the multiplication sign U+00D7) to the code unit 32 above,
  and leaves everything else alone. The regular expressions of the sandbox carry the flag
  \<^verbatim>\<open>i\<close>: two code units match when their canonical (upper-case) forms agree.
  Code units above U+00FF are not modelled; among them the flag also identifies distinct
  lower-case code units (U+00B5 with U+03BC, U+03C3 with U+03C2), so no statement below
  relies on lower-case code units with equal canonical forms being equal.
\<close>

definition toLowerCase_char :: "char \<Rightarrow> char" where
  "toLowerCase_char c =
     (let n = (of_char c :: nat) in
      if (65 \<le> n \<and> n \<le> 90) \<or> (192 \<le> n \<and> n \<le> 222 \<and> n \<noteq> 215)
      then char_of (n + 32) else c)"

definition toLowerCase :: "string \<Rightarrow> string" where
  "toLowerCase s = map toLowerCase_char s"

definition canonicalize :: "char \<Rightarrow> char" where
  "canonicalize c =
     (let n = (of_char c :: nat) in
      if (97 \<le> n \<and> n \<le> 122) \<or> (224 \<le> n \<and> n \<le> 254 \<and> n \<noteq> 247)
      then char_of (n - 32) else c)"

text \<open>
  The class \<^verbatim>\<open>\s\<close> and the characters removed by \<^verbatim>\<open>trim()\<close> coincide:
  tab, line feed, vertical tab, form feed, carriage return, space and no-break space.
\<close>

definition is_space :: "char \<Rightarrow> bool" where
  "is_space c = ((of_char c :: nat) \<in> {9, 10, 11, 12, 13, 32, 160})"

definition trim :: "string \<Rightarrow> string" where
  "trim s = rev (dropWhile is_space (rev (dropWhile is_space s)))"

fun join :: "string \<Rightarrow> string list \<Rightarrow> string" where
  "join sep [] = []"
| "join sep [x] = x"
| "join sep (x # y # ys) = x @ sep @ join sep (y # ys)"

fun starts_with :: "string \<Rightarrow> string \<Rightarrow> bool" where
  "starts_with s [] = True"
| "starts_with [] (p # ps) = False"
| "starts_with (c # cs) (p # ps) = (if c = p then starts_with cs ps else False)"

definition backslash :: char where
  "backslash = CHR 0x5C"

text \<open>\<^verbatim>\<open>s.includes(p)\<close>: \<open>p\<close> occurs in \<open>s\<close> as a contiguous run.\<close>

fun str_includes :: "string \<Rightarrow> string \<Rightarrow> bool" where
  "str_includes [] p = (p = [])"
| "str_includes (c # cs) p = (if starts_with (c # cs) p then True else str_includes cs p)"

fun string_of_nat :: "nat \<Rightarrow> string" where
  "string_of_nat n =
     (if n < 10 then [char_of (48 + n)]
      else string_of_nat (n div 10) @ [char_of (48 + n mod 10)])"

declare string_of_nat.simps [simp del]

section \<open>Regular expressions\<close>

text \<open>
  The fragment of the regular expression language that \<^verbatim>\<open>DANGEROUS_PATTERNS\<close> uses:
  literal characters (compared canonically, flag \<^verbatim>\<open>i\<close>), \<^verbatim>\<open>\s\<close>, the dot (any
  code unit but line feed and carriage return), character classes, sequence, alternation
  and the star. \<^verbatim>\<open>r+\<close> is \<open>r r*\<close> and \<^verbatim>\<open>r?\<close> is \<open>r | \<epsilon>\<close>.
  Matching is by derivatives; \<^verbatim>\<open>RegExp.prototype.test\<close> on a pattern without anchors
  and without the flags \<^verbatim>\<open>g\<close> and \<^verbatim>\<open>y\<close> asks whether some substring matches.
\<close>

datatype rexp =
    Nothing
  | Eps
  | Lit char
  | Space
  | Dot
  | Class "char list"
  | Any
  | Seq rexp rexp
  | Alt rexp rexp
  | Star rexp

definition Plus :: "rexp \<Rightarrow> rexp" where
  "Plus r = Seq r (Star r)"

definition Opt :: "rexp \<Rightarrow> rexp" where
  "Opt r = Alt r Eps"

fun lits :: "string \<Rightarrow> rexp" where
  "lits [] = Eps"
| "lits [c] = Lit c"
| "lits (c # cs) = Seq (Lit c) (lits cs)"

fun nullable :: "rexp \<Rightarrow> bool" where
  "nullable Nothing = False"
| "nullable Eps = True"
| "nullable (Lit c) = False"
| "nullable Space = False"
| "nullable Dot = False"
| "nullable (Class cs) = False"
| "nullable Any = False"
| "nullable (Seq r s) = (nullable r \<and> nullable s)"
| "nullable (Alt r s) = (nullable r \<or> nullable s)"
| "nullable (Star r) = True"

definition seq :: "rexp \<Rightarrow> rexp \<Rightarrow> rexp" where
  "seq r s = (if r = Nothing \<or> s = Nothing then Nothing else if r = Eps then s else Seq r s)"

definition alt :: "rexp \<Rightarrow> rexp \<Rightarrow> rexp" where
  "alt r s = (if r = Nothing then s else if s = Nothing then r else if r = s then r else Alt r s)"

definition accepts_char :: "bool \<Rightarrow> rexp" where
  "accepts_char b = (if b then Eps else Nothing)"

fun deriv :: "char \<Rightarrow> rexp \<Rightarrow> rexp" where
  "deriv x Nothing = Nothing"
| "deriv x Eps = Nothing"
| "deriv x (Lit c) = accepts_char (canonicalize x = canonicalize c)"
| "deriv x Space = accepts_char (is_space x)"
| "deriv x Dot = accepts_char ((of_char x :: nat) \<notin> {10, 13})"
| "deriv x (Class cs) = accepts_char (canonicalize x \<in> set (map canonicalize cs))"
| "deriv x Any = Eps"
| "deriv x (Seq r s) =
     (if nullable r then alt (seq (deriv x r) s) (deriv x s) else seq (deriv x r) s)"
| "deriv x (Alt r s) = alt (deriv x r) (deriv x s)"
| "deriv x (Star r) = seq (deriv x r) (Star r)"

fun matches :: "rexp \<Rightarrow> string \<Rightarrow> bool" where
  "matches r [] = nullable r"
| "matches r (c # cs) = matches (deriv c r) cs"

definition rexp_test :: "rexp \<Rightarrow> string \<Rightarrow> bool" where
  "rexp_test r s = matches (Seq (Star Any) (Seq r (Star Any))) s"

text \<open>
  A \<^verbatim>\<open>RegExp\<close> object of the policy: its \<^verbatim>\<open>source\<close> text and what its
  \<^verbatim>\<open>test\<close> method answers. None of the patterns has the flag \<^verbatim>\<open>g\<close> or
  \<^verbatim>\<open>y\<close>, so \<^verbatim>\<open>test\<close> keeps no state between calls.
\<close>

record RegExp =
  source :: string
  test :: "string \<Rightarrow> bool"

definition regexp :: "string \<Rightarrow> rexp \<Rightarrow> RegExp" where
  "regexp src r = \<lparr>source = src, test = rexp_test r\<rparr>"

section \<open>The command sandbox\<close>

type_synonym Date = nat

datatype RiskLevel = R_safe | R_low | R_medium | R_high | R_blocked

record CommandRequest =
  request_id :: string
  request_agentRole :: string
  command :: string
  args :: "string list"
  timestamp :: Date

record CommandValidationResult =
  allowed :: bool
  requiresApproval :: bool
  reason :: string
  riskLevel :: RiskLevel
  violations :: "string list"

datatype ApprovalStatus = A_pending | A_approved | A_rejected

record ApprovalRequest =
  commandRequest :: CommandRequest
  validationResult :: CommandValidationResult
  approvedBy :: "string option"
  approvedAt :: "Date option"
  approval_status :: ApprovalStatus

definition BLOCKED_COMMANDS :: "string list" where
  "BLOCKED_COMMANDS =
    [''rm'', ''del'', ''rmdir'', ''format'', ''fdisk'', ''mkfs'',
     ''shutdown'', ''reboot'', ''halt'', ''poweroff'',
     ''kill'', ''killall'', ''pkill'', ''taskkill'',
     ''chmod'', ''chown'', ''chgrp'', ''icacls'', ''takeown'',
     ''useradd'', ''userdel'', ''usermod'', ''passwd'',
     ''net user'', ''net localgroup'',
     ''reg'', ''regedit'', ''sfc'', ''dism'',
     ''bcdedit'', ''diskpart'',
     ''netsh'', ''iptables'', ''ufw'', ''firewall-cmd'',
     ''route'', ''ifconfig'', ''ip link'', ''ip addr'',
     ''apt'', ''apt-get'', ''yum'', ''dnf'', ''pacman'',
     ''brew'', ''choco'', ''winget'', ''scoop'',
     ''npm install -g'', ''pip install'', ''gem install'',
     ''eval'', ''exec'', ''source'', ''bash -c'', ''sh -c'',
     ''powershell -c'', ''cmd /c'', ''wscript'', ''cscript'',
     ''dd'', ''shred'', ''wipe'']"

definition shells2 :: rexp where
  "shells2 = Alt (lits ''bash'') (lits ''sh'')"

definition DANGEROUS_PATTERNS :: "RegExp list" where
  "DANGEROUS_PATTERNS =
    [regexp (''rm'' @ [backslash] @ ''s+(-rf?|--force|--recursive)'')
       (Seq (lits ''rm'') (Seq (Plus Space)
          (Alt (Seq (lits ''-r'') (Opt (Lit CHR ''f'')))
               (Alt (lits ''--force'') (lits ''--recursive''))))),
     regexp (''del'' @ [backslash] @ ''s+'' @ [backslash] @ ''/[sfq]'')
       (Seq (lits ''del'') (Seq (Plus Space) (Seq (Lit CHR ''/'') (Class ''sfq'')))),
     regexp (''>'' @ [backslash] @ ''s*'' @ [backslash] @ ''/dev'' @ [backslash] @ ''/(sd|hd|nvme)'')
       (Seq (Lit CHR ''>'') (Seq (Star Space) (Seq (lits ''/dev/'')
          (Alt (lits ''sd'') (Alt (lits ''hd'') (lits ''nvme'')))))),
     regexp ([backslash] @ ''|'' @ [backslash] @ ''s*(bash|sh|powershell|cmd)'')
       (Seq (Lit CHR ''|'') (Seq (Star Space)
          (Alt (lits ''bash'') (Alt (lits ''sh'') (Alt (lits ''powershell'') (lits ''cmd'')))))),
     regexp (''curl.*'' @ [backslash] @ ''|'' @ [backslash] @ ''s*(bash|sh)'')
       (Seq (lits ''curl'') (Seq (Star Dot) (Seq (Lit CHR ''|'') (Seq (Star Space) shells2)))),
     regexp (''wget.*'' @ [backslash] @ ''|'' @ [backslash] @ ''s*(bash|sh)'')
       (Seq (lits ''wget'') (Seq (Star Dot) (Seq (Lit CHR ''|'') (Seq (Star Space) shells2)))),
     regexp (''base64'' @ [backslash] @ ''s+-d'')
       (Seq (lits ''base64'') (Seq (Plus Space) (lits ''-d''))),
     regexp ''--no-preserve-root'' (lits ''--no-preserve-root''),
     regexp (''sudo'' @ [backslash] @ ''s+'') (Seq (lits ''sudo'') (Plus Space)),
     regexp (''runas'' @ [backslash] @ ''s+'') (Seq (lits ''runas'') (Plus Space)),
     regexp (''Start-Process.*-Verb'' @ [backslash] @ ''s+RunAs'')
       (Seq (lits ''Start-Process'') (Seq (Star Dot)
          (Seq (lits ''-Verb'') (Seq (Plus Space) (lits ''RunAs'')))))]"

definition APPROVAL_REQUIRED :: "string list" where
  "APPROVAL_REQUIRED =
    [''git push'', ''git commit'',
     ''npm publish'', ''yarn publish'',
     ''docker'', ''kubectl'',
     ''ssh'', ''scp'', ''rsync'',
     ''curl'', ''wget'', ''fetch'',
     ''move'', ''mv'', ''copy'', ''cp'']"

text \<open>
  A JavaScript \<^verbatim>\<open>Set\<close> of strings keeps its members in insertion order and ignores
  the insertion of a member it already has.
\<close>

definition set_add :: "string \<Rightarrow> string list \<Rightarrow> string list" where
  "set_add x xs = (if x \<in> set xs then xs else xs @ [x])"

definition new_Set :: "string list \<Rightarrow> string list" where
  "new_Set xs = fold set_add xs []"

record CommandSandbox =
  blockedCommands :: "string list"
  dangerousPatterns :: "RegExp list"
  approvalRequired :: "string list"
  pendingApprovals :: "(string \<times> ApprovalRequest) list"
  auditLog :: "CommandRequest list"

definition new_CommandSandbox :: CommandSandbox where
  "new_CommandSandbox =
    \<lparr>blockedCommands = new_Set (map toLowerCase BLOCKED_COMMANDS),
     dangerousPatterns = DANGEROUS_PATTERNS,
     approvalRequired = new_Set (map toLowerCase APPROVAL_REQUIRED),
     pendingApprovals = [],
     auditLog = []\<rparr>"

definition addBlockedCommand :: "string \<Rightarrow> CommandSandbox \<Rightarrow> CommandSandbox" where
  "addBlockedCommand c sb = sb\<lparr>blockedCommands := set_add (toLowerCase c) (blockedCommands sb)\<rparr>"

definition addDangerousPattern :: "RegExp \<Rightarrow> CommandSandbox \<Rightarrow> CommandSandbox" where
  "addDangerousPattern p sb = sb\<lparr>dangerousPatterns := dangerousPatterns sb @ [p]\<rparr>"

text \<open>
  The pattern that \<^verbatim>\<open>validate\<close> builds from a keyword \<open>k\<close>,
  \<^verbatim>\<open>new RegExp(`(^|\s|[/\\])${escapeRegex(k)}(\s|$)`, 'i')\<close>: the escaped keyword
  matches itself literally (canonically, flag \<^verbatim>\<open>i\<close>); before it comes the start of
  the input, a white-space character, a slash or a backslash; after it comes a white-space
  character or the end of the input. \<open>ci_starts_with s k\<close> matches the literal at the
  head of \<open>s\<close>, \<open>trailing_ok\<close> is the group \<^verbatim>\<open>(\s|$)\<close>, and \<open>boundary_scan\<close>
  tries every start position, \<open>lead\<close> telling whether the group
  \<^verbatim>\<open>(^|\s|[/\\])\<close> matches just before it.
\<close>

fun ci_starts_with :: "string \<Rightarrow> string \<Rightarrow> bool" where
  "ci_starts_with s [] = True"
| "ci_starts_with [] (p # ps) = False"
| "ci_starts_with (c # cs) (p # ps) =
     (if canonicalize c = canonicalize p then ci_starts_with cs ps else False)"

definition trailing_ok :: "string \<Rightarrow> bool" where
  "trailing_ok s = (case s of [] \<Rightarrow> True | c # cs \<Rightarrow> is_space c)"

definition leading_char :: "char \<Rightarrow> bool" where
  "leading_char c = (is_space c \<or> c = CHR ''/'' \<or> c = backslash)"

definition match_here :: "string \<Rightarrow> string \<Rightarrow> bool" where
  "match_here k s = (if ci_starts_with s k then trailing_ok (drop (length k) s) else False)"

fun boundary_scan :: "bool \<Rightarrow> string \<Rightarrow> string \<Rightarrow> bool" where
  "boundary_scan lead k [] = (if lead then match_here k [] else False)"
| "boundary_scan lead k (c # cs) =
     (if (if lead then match_here k (c # cs) else False) then True
      else boundary_scan (leading_char c) k cs)"

definition boundary_test :: "string \<Rightarrow> string \<Rightarrow> bool" where
  "boundary_test k fullCommand = boundary_scan True k fullCommand"

definition blocked_violation :: "string \<Rightarrow> string" where
  "blocked_violation blocked = ''Blocked command: '' @ blocked"

definition pattern_violation :: "RegExp \<Rightarrow> string" where
  "pattern_violation pattern = ''Dangerous pattern: '' @ source pattern"

text \<open>One round of the loop over \<^verbatim>\<open>this.blockedCommands\<close>.\<close>

definition check_blocked :: "string \<Rightarrow> string \<Rightarrow> string \<Rightarrow> string list \<Rightarrow> string list" where
  "check_blocked commandLower fullCommand blocked vs =
     (if str_includes blocked '' '' then
        (if str_includes fullCommand blocked then vs @ [blocked_violation blocked]
         else if boundary_test blocked fullCommand then vs @ [blocked_violation blocked]
         else vs)
      else
        (if commandLower = blocked then vs @ [blocked_violation blocked]
         else if boundary_test blocked fullCommand then vs @ [blocked_violation blocked]
         else vs))"

text \<open>One round of the loop over \<^verbatim>\<open>this.dangerousPatterns\<close>.\<close>

definition check_pattern :: "string \<Rightarrow> RegExp \<Rightarrow> string list \<Rightarrow> string list" where
  "check_pattern fullCommand pattern vs =
     (if test pattern fullCommand then vs @ [pattern_violation pattern] else vs)"

text \<open>The loop over \<^verbatim>\<open>this.approvalRequired\<close>, left at the first match.\<close>

fun check_approval :: "string \<Rightarrow> string list \<Rightarrow> bool" where
  "check_approval fullCommand [] = False"
| "check_approval fullCommand (approval # rest) =
     (if str_includes approval '' '' then
        (if str_includes fullCommand approval then True else check_approval fullCommand rest)
      else
        (if boundary_test approval fullCommand then True else check_approval fullCommand rest))"

definition full_command :: "CommandRequest \<Rightarrow> string" where
  "full_command request =
     trim (trim (toLowerCase (command request)) @ '' '' @
           join '' '' (map (\<lambda>a. trim (toLowerCase a)) (args request)))"

definition validate :: "CommandRequest \<Rightarrow> CommandSandbox \<Rightarrow> CommandValidationResult \<times> CommandSandbox" where
  "validate request sb =
     (let commandLower = trim (toLowerCase (command request));
          fullCommand = full_command request;
          sb1 = sb\<lparr>auditLog := auditLog sb @ [request]\<rparr>;
          violations1 = fold (check_blocked commandLower fullCommand) (blockedCommands sb1) [];
          violations2 = fold (check_pattern fullCommand) (dangerousPatterns sb1) violations1
      in if length violations2 > 0 then
           (\<lparr>allowed = False, requiresApproval = False,
             reason = ''Command blocked - security policy violation'',
             riskLevel = R_blocked, violations = violations2\<rparr>, sb1)
         else
           (let ra = check_approval fullCommand (approvalRequired sb1) in
            (\<lparr>allowed = \<not> ra, requiresApproval = ra,
              reason = (if ra then ''Command requires human operator approval''
                        else ''Command passed validation''),
              riskLevel = (if ra then R_medium else R_safe), violations = []\<rparr>, sb1)))"

section \<open>The task runner\<close>

datatype TaskStatus =
    S_pending | S_awaiting_approval | S_approved | S_executing
  | S_completed | S_failed | S_blocked

fun status_name :: "TaskStatus \<Rightarrow> string" where
  "status_name S_pending = ''pending''"
| "status_name S_awaiting_approval = ''awaiting_approval''"
| "status_name S_approved = ''approved''"
| "status_name S_executing = ''executing''"
| "status_name S_completed = ''completed''"
| "status_name S_failed = ''failed''"
| "status_name S_blocked = ''blocked''"

record TaskResult =
  commandIndex :: nat
  success :: bool
  result_output :: "string option"
  result_error :: "string option"
  executedAt :: Date

text \<open>A command of a task, \<^verbatim>\<open>{ command: string; args: string[] }\<close>, is a pair.\<close>

record Task =
  task_id :: string
  agentRole :: string
  description :: string
  commands :: "(string \<times> string list) list"
  status :: TaskStatus
  createdAt :: Date
  completedAt :: "Date option"
  results :: "TaskResult list"
  task_blockedCommands :: "string list"

record TaskRunnerConfig =
  requireApprovalForAll :: bool
  maxPendingTasks :: int
  autoRejectBlockedTasks :: bool

definition DEFAULT_CONFIG :: TaskRunnerConfig where
  "DEFAULT_CONFIG =
     \<lparr>requireApprovalForAll = True, maxPendingTasks = 10, autoRejectBlockedTasks = True\<rparr>"

text \<open>
  \<^verbatim>\<open>tasks\<close> and \<^verbatim>\<open>approvalCallbacks\<close> are JavaScript \<^verbatim>\<open>Map\<close>s: association
  lists in insertion order, where \<^verbatim>\<open>set\<close> on a present key replaces the value in
  place. A callback is known by the handle of the promise and timer it closes over.
\<close>

record TaskRunner =
  tasks :: "(string \<times> Task) list"
  config :: TaskRunnerConfig
  approvalCallbacks :: "(string \<times> nat) list"

text \<open>
  The constructor merges a partial configuration over the defaults,
  \<^verbatim>\<open>{ ...DEFAULT_CONFIG, ...config }\<close>.
\<close>

definition new_TaskRunner :: "bool option \<Rightarrow> int option \<Rightarrow> bool option \<Rightarrow> TaskRunner" where
  "new_TaskRunner approvalForAll maxPending autoReject =
     \<lparr>tasks = [],
      config =
        \<lparr>requireApprovalForAll =
           (case approvalForAll of None \<Rightarrow> requireApprovalForAll DEFAULT_CONFIG | Some v \<Rightarrow> v),
         maxPendingTasks =
           (case maxPending of None \<Rightarrow> maxPendingTasks DEFAULT_CONFIG | Some v \<Rightarrow> v),
         autoRejectBlockedTasks =
           (case autoReject of None \<Rightarrow> autoRejectBlockedTasks DEFAULT_CONFIG | Some v \<Rightarrow> v)\<rparr>,
      approvalCallbacks = []\<rparr>"

text \<open>
  The state the operations of the runner act on: the module-level sandbox, the runner, and
  what the JavaScript run time keeps for \<^verbatim>\<open>waitForApproval\<close>: the promises created
  so far (\<open>None\<close> while pending, \<open>Some v\<close> once resolved with \<open>v\<close>; the handle of a
  promise is its position) and the timeouts that are still armed (handle, task id and delay).
  Calls to \<^verbatim>\<open>console.log\<close> only write output and are left out. Identifiers and times,
  which the code draws from \<^verbatim>\<open>Date.now()\<close>, \<^verbatim>\<open>Math.random()\<close> and
  \<^verbatim>\<open>new Date()\<close>, are arguments of the operations. Every operation runs as one step.
\<close>

record World =
  sandbox :: CommandSandbox
  runner :: TaskRunner
  promises :: "bool option list"
  timers :: "(nat \<times> string \<times> nat) list"

definition set_tasks :: "(string \<times> Task) list \<Rightarrow> World \<Rightarrow> World" where
  "set_tasks ts w = w\<lparr>runner := (runner w)\<lparr>tasks := ts\<rparr>\<rparr>"

definition set_callbacks :: "(string \<times> nat) list \<Rightarrow> World \<Rightarrow> World" where
  "set_callbacks cbs w = w\<lparr>runner := (runner w)\<lparr>approvalCallbacks := cbs\<rparr>\<rparr>"

definition make_request :: "string \<Rightarrow> string \<Rightarrow> (nat \<Rightarrow> Date) \<Rightarrow> nat \<Rightarrow> string \<times> string list \<Rightarrow> CommandRequest" where
  "make_request taskId role stamps i cmd =
     \<lparr>request_id = taskId @ ''-cmd-'' @ string_of_nat i, request_agentRole = role,
      command = fst cmd, args = snd cmd, timestamp = stamps i\<rparr>"

text \<open>
  The validation loop of \<^verbatim>\<open>submitTask\<close>, from index \<open>i\<close> on. Its state is
  \<^verbatim>\<open>validationResults\<close>, \<^verbatim>\<open>hasBlocked\<close>, \<^verbatim>\<open>requiresApproval\<close>, the task
  and the sandbox.
\<close>

fun validate_commands ::
  "string \<Rightarrow> string \<Rightarrow> (nat \<Rightarrow> Date) \<Rightarrow> nat \<Rightarrow> (string \<times> string list) list \<Rightarrow>
   CommandValidationResult list \<times> bool \<times> bool \<times> Task \<times> CommandSandbox \<Rightarrow>
   CommandValidationResult list \<times> bool \<times> bool \<times> Task \<times> CommandSandbox" where
  "validate_commands taskId role stamps i [] st = st"
| "validate_commands taskId role stamps i (cmd # rest) (vrs, hasBlocked, needsApproval, task, sb) =
     (let (result, sb1) = validate (make_request taskId role stamps i cmd) sb;
          vrs1 = vrs @ [result];
          hasBlocked1 = (if riskLevel result = R_blocked then True else hasBlocked);
          task1 = (if riskLevel result = R_blocked
                   then task\<lparr>task_blockedCommands :=
                          task_blockedCommands task @ [fst cmd @ '' '' @ join '' '' (snd cmd)]\<rparr>
                   else task);
          needsApproval1 = (if requiresApproval result then True else needsApproval)
      in validate_commands taskId role stamps (Suc i) rest
           (vrs1, hasBlocked1, needsApproval1, task1, sb1))"

definition submitTask ::
  "string \<Rightarrow> Date \<Rightarrow> (nat \<Rightarrow> Date) \<Rightarrow> string \<Rightarrow> string \<Rightarrow> (string \<times> string list) list \<Rightarrow>
   World \<Rightarrow> Task \<times> World" where
  "submitTask taskId now stamps role descr cmds w =
     (let task = \<lparr>task_id = taskId, agentRole = role, description = descr, commands = cmds,
                  status = S_pending, createdAt = now, completedAt = None, results = [],
                  task_blockedCommands = []\<rparr>;
          (vrs, hasBlocked, needsApproval, task1, sb1) =
             validate_commands taskId role stamps 0 cmds
               ([], False, requireApprovalForAll (config (runner w)), task, sandbox w);
          w1 = w\<lparr>sandbox := sb1\<rparr>
      in if hasBlocked then
           (let task2 = task1\<lparr>status := S_blocked\<rparr>
            in (task2, set_tasks (AList.update taskId task2 (tasks (runner w1))) w1))
         else
           (let task2 = task1\<lparr>status := (if needsApproval then S_awaiting_approval else S_approved)\<rparr>
            in (task2, set_tasks (AList.update taskId task2 (tasks (runner w1))) w1)))"

text \<open>
  Resolving a promise a second time does nothing. The callback that
  \<^verbatim>\<open>waitForApproval\<close> registers clears its timeout and resolves its promise.
\<close>

definition resolve :: "nat \<Rightarrow> bool \<Rightarrow> bool option list \<Rightarrow> bool option list" where
  "resolve h v ps = (if h < length ps \<and> ps ! h = None then ps[h := Some v] else ps)"

definition run_callback :: "string \<Rightarrow> bool \<Rightarrow> World \<Rightarrow> World" where
  "run_callback taskId approved w =
     (case map_of (approvalCallbacks (runner w)) taskId of
        None \<Rightarrow> w
      | Some h \<Rightarrow>
          set_callbacks (AList.delete taskId (approvalCallbacks (runner w)))
            (w\<lparr>timers := AList.delete h (timers w), promises := resolve h approved (promises w)\<rparr>))"

definition approveTask :: "string \<Rightarrow> string \<Rightarrow> World \<Rightarrow> bool \<times> World" where
  "approveTask taskId operatorName w =
     (case map_of (tasks (runner w)) taskId of
        None \<Rightarrow> (False, w)
      | Some task \<Rightarrow>
          if status task \<noteq> S_awaiting_approval then (False, w)
          else (True, run_callback taskId True
                  (set_tasks (AList.update taskId (task\<lparr>status := S_approved\<rparr>) (tasks (runner w))) w)))"

definition rejectTask :: "string \<Rightarrow> string option \<Rightarrow> World \<Rightarrow> bool \<times> World" where
  "rejectTask taskId why w =
     (case map_of (tasks (runner w)) taskId of
        None \<Rightarrow> (False, w)
      | Some task \<Rightarrow>
          if status task \<noteq> S_awaiting_approval then (False, w)
          else (True, run_callback taskId False
                  (set_tasks (AList.update taskId (task\<lparr>status := S_failed\<rparr>) (tasks (runner w))) w)))"

text \<open>
  The execution backend, \<^verbatim>\<open>executeCommand\<close>: it has a state of its own, and a call
  either returns \<^verbatim>\<open>{ success, output?, error? }\<close> or throws. The one in the source is
  a placeholder that always succeeds.
\<close>

record ExecResult =
  exec_success :: bool
  exec_output :: "string option"
  exec_error :: "string option"

datatype exec_outcome = Returns ExecResult | Throws string

type_synonym 'b backend = "'b \<Rightarrow> string \<Rightarrow> string list \<Rightarrow> exec_outcome \<times> 'b"

definition executeCommand :: "'b backend" where
  "executeCommand b c a =
     (Returns \<lparr>exec_success = True, exec_output = Some ''Command executed in sandbox'',
               exec_error = None\<rparr>, b)"

datatype js_error = Error string

datatype loop_exit = Finished | Returned_early | Thrown string

text \<open>The loop of \<^verbatim>\<open>executeTask\<close> over the commands from index \<open>i\<close> on.\<close>

fun run_commands ::
  "'b backend \<Rightarrow> (nat \<Rightarrow> Date) \<Rightarrow> nat \<Rightarrow> (string \<times> string list) list \<Rightarrow> Task \<Rightarrow> 'b \<Rightarrow>
   loop_exit \<times> Task \<times> 'b" where
  "run_commands exec clock i [] task b = (Finished, task, b)"
| "run_commands exec clock i (cmd # rest) task b =
     (case exec b (fst cmd) (snd cmd) of
        (Throws e, b1) \<Rightarrow> (Thrown e, task, b1)
      | (Returns r, b1) \<Rightarrow>
          (let task1 = task\<lparr>results := results task @
                         [\<lparr>commandIndex = i, success = exec_success r,
                           result_output = exec_output r, result_error = exec_error r, executedAt = clock i\<rparr>]\<rparr>
           in if \<not> exec_success r then (Returned_early, task1\<lparr>status := S_failed\<rparr>, b1)
              else run_commands exec clock (Suc i) rest task1 b1))"

text \<open>
  \<^verbatim>\<open>executeTask\<close> is \<^verbatim>\<open>async\<close>: a \<^verbatim>\<open>throw\<close> in its body rejects the promise
  it returns (\<open>Inl\<close>), a \<^verbatim>\<open>return\<close> fulfils it (\<open>Inr\<close>).
\<close>

definition executeTask ::
  "'b backend \<Rightarrow> (nat \<Rightarrow> Date) \<Rightarrow> Date \<Rightarrow> string \<Rightarrow> World \<Rightarrow> 'b \<Rightarrow> (js_error + Task) \<times> World \<times> 'b" where
  "executeTask exec clock doneAt taskId w b =
     (case map_of (tasks (runner w)) taskId of
        None \<Rightarrow> (Inl (Error (''Task '' @ taskId @ '' not found'')), w, b)
      | Some task \<Rightarrow>
          if status task \<noteq> S_approved then
            (Inl (Error (''Task '' @ taskId @ '' is not approved for execution. Current status: ''
                         @ status_name (status task))), w, b)
          else
            (let task1 = task\<lparr>status := S_executing\<rparr> in
             case run_commands exec clock 0 (commands task1) task1 b of
               (Returned_early, task2, b1) \<Rightarrow>
                 (Inr task2, set_tasks (AList.update taskId task2 (tasks (runner w))) w, b1)
             | (Finished, task2, b1) \<Rightarrow>
                 (let task3 = task2\<lparr>status := S_completed, completedAt := Some doneAt\<rparr>
                  in (Inr task3, set_tasks (AList.update taskId task3 (tasks (runner w))) w, b1))
             | (Thrown e, task2, b1) \<Rightarrow>
                 (let task3 = task2\<lparr>status := S_failed\<rparr>
                  in (Inr task3, set_tasks (AList.update taskId task3 (tasks (runner w))) w, b1))))"

text \<open>
  \<^verbatim>\<open>waitForApproval\<close> either answers at once or creates a promise, arms a timeout and
  registers a callback under the task id. \<open>timeout_fires h\<close> is the body of the timeout
  with handle \<open>h\<close>, run by the event loop when the delay has passed.
\<close>

datatype wait_promise = Resolved bool | Waiting nat

definition waitForApproval :: "string \<Rightarrow> nat \<Rightarrow> World \<Rightarrow> wait_promise \<times> World" where
  "waitForApproval taskId timeoutMs w =
     (case map_of (tasks (runner w)) taskId of
        None \<Rightarrow> (Resolved False, w)
      | Some task \<Rightarrow>
          if status task = S_approved then (Resolved True, w)
          else if status task \<noteq> S_awaiting_approval then (Resolved False, w)
          else
            (let h = length (promises w)
             in (Waiting h,
                 set_callbacks (AList.update taskId h (approvalCallbacks (runner w)))
                   (w\<lparr>promises := promises w @ [None],
                      timers := AList.update h (taskId, timeoutMs) (timers w)\<rparr>))))"

definition timeout_fires :: "nat \<Rightarrow> World \<Rightarrow> World" where
  "timeout_fires h w =
     (case map_of (timers w) h of
        None \<Rightarrow> w
      | Some (taskId, timeoutMs) \<Rightarrow>
          set_callbacks (AList.delete taskId (approvalCallbacks (runner w)))
            (w\<lparr>timers := AList.delete h (timers w), promises := resolve h False (promises w)\<rparr>))"

definition getTask :: "string \<Rightarrow> World \<Rightarrow> Task option" where
  "getTask taskId w = map_of (tasks (runner w)) taskId"

definition getPendingApprovals :: "World \<Rightarrow> Task list" where
  "getPendingApprovals w = filter (\<lambda>t. status t = S_awaiting_approval) (map snd (tasks (runner w)))"

definition getTaskHistory :: "World \<Rightarrow> Task list" where
  "getTaskHistory w = map snd (tasks (runner w))"

definition new_World :: "bool option \<Rightarrow> int option \<Rightarrow> bool option \<Rightarrow> World" where
  "new_World approvalForAll maxPending autoReject =
     \<lparr>sandbox = new_CommandSandbox,
      runner = new_TaskRunner approvalForAll maxPending autoReject,
      promises = [], timers = []\<rparr>"

section \<open>Auxiliary notions for the statements\<close>

text \<open>Whether a round of the keyword loop pushes a violation.\<close>

definition blocked_hit :: "string \<Rightarrow> string \<Rightarrow> string \<Rightarrow> bool" where
  "blocked_hit commandLower fullCommand blocked =
     (check_blocked commandLower fullCommand blocked [] \<noteq> [])"

definition command_lower :: "CommandRequest \<Rightarrow> string" where
  "command_lower request = trim (toLowerCase (command request))"

text \<open>Every violation that the two loops of \<^verbatim>\<open>validate\<close> can push, in their order.\<close>

definition all_violations :: "CommandRequest \<Rightarrow> CommandSandbox \<Rightarrow> string list" where
  "all_violations r sb =
     map blocked_violation
       (filter (blocked_hit (command_lower r) (full_command r)) (blockedCommands sb)) @
     map pattern_violation (filter (\<lambda>p. test p (full_command r)) (dangerousPatterns sb))"

text \<open>Scenario A of the specification: \<^verbatim>\<open>rm -rf /tmp/data\<close>.\<close>

definition scenario_A :: CommandRequest where
  "scenario_A =
     \<lparr>request_id = ''task-1-cmd-0'', request_agentRole = ''cleanup-agent'',
      command = ''rm'', args = [''-rf'', ''/tmp/data''], timestamp = 0\<rparr>"

text \<open>A command that trips one keyword and two patterns at once.\<close>

definition scenario_sudo :: CommandRequest where
  "scenario_sudo =
     \<lparr>request_id = ''task-2-cmd-0'', request_agentRole = ''cleanup-agent'',
      command = ''sudo'', args = [''rm'', ''-r'', ''x''], timestamp = 0\<rparr>"

text \<open>
  The word-boundary match as the specification words it: the keyword, bounded on both
  sides by the start or end of the string, white space or a path separator.
\<close>

definition spec_boundary_char :: "char \<Rightarrow> bool" where
  "spec_boundary_char c = (is_space c \<or> c = CHR ''/'' \<or> c = backslash)"

definition spec_bounded_here :: "string \<Rightarrow> string \<Rightarrow> bool" where
  "spec_bounded_here k s =
     (if starts_with s k
      then (case drop (length k) s of [] \<Rightarrow> True | c # cs \<Rightarrow> spec_boundary_char c)
      else False)"

fun spec_boundary_scan :: "bool \<Rightarrow> string \<Rightarrow> string \<Rightarrow> bool" where
  "spec_boundary_scan lead k [] = (if lead then spec_bounded_here k [] else False)"
| "spec_boundary_scan lead k (c # cs) =
     (if (if lead then spec_bounded_here k (c # cs) else False) then True
      else spec_boundary_scan (spec_boundary_char c) k cs)"

definition spec_word_boundary_match :: "string \<Rightarrow> string \<Rightarrow> bool" where
  "spec_word_boundary_match k s = spec_boundary_scan True k s"

text \<open>A multi-token keyword glued to a longer token, as in the README.\<close>

definition concat_bypass :: CommandRequest where
  "concat_bypass =
     \<lparr>request_id = ''task-3-cmd-0'', request_agentRole = ''installer'',
      command = ''mynpm'', args = [''install'', ''-g''], timestamp = 0\<rparr>"

text \<open>A keyword followed directly by a path separator, and one preceded by one.\<close>

definition trailing_slash :: CommandRequest where
  "trailing_slash =
     \<lparr>request_id = ''task-4-cmd-0'', request_agentRole = ''file-reader'',
      command = ''ls'', args = [''rm/''], timestamp = 0\<rparr>"

definition path_prefixed :: CommandRequest where
  "path_prefixed =
     \<lparr>request_id = ''task-5-cmd-0'', request_agentRole = ''cleanup-agent'',
      command = ''/usr/bin/rm'', args = [''notes.txt''], timestamp = 0\<rparr>"

text \<open>The requests that \<^verbatim>\<open>submitTask\<close> builds for the commands from index \<open>i\<close> on.\<close>

definition task_requests ::
  "string \<Rightarrow> string \<Rightarrow> (nat \<Rightarrow> Date) \<Rightarrow> nat \<Rightarrow> (string \<times> string list) list \<Rightarrow> CommandRequest list" where
  "task_requests taskId role stamps i cmds =
     map (\<lambda>(j, cmd). make_request taskId role stamps j cmd) (enumerate i cmds)"

text \<open>A task with a harmless and a blocked command, submitted to a fresh runner.\<close>

definition blocked_submission :: "Task \<times> World" where
  "blocked_submission =
     submitTask ''task-1'' 0 (\<lambda>i. 0) ''cleanup-agent'' ''Remove temporary files''
       [(''ls'', [''-la'']), (''rm'', [''-rf'', ''/tmp/data''])] (new_World None None None)"

text \<open>
  A backend that returns (never throws), and the answers and states it would give if the
  commands were run one after the other, each from the state the one before left.
\<close>

definition returning :: "('b \<Rightarrow> string \<Rightarrow> string list \<Rightarrow> ExecResult \<times> 'b) \<Rightarrow> 'b backend" where
  "returning exec b c a = (case exec b c a of (r, b1) \<Rightarrow> (Returns r, b1))"

fun backend_run ::
  "('b \<Rightarrow> string \<Rightarrow> string list \<Rightarrow> ExecResult \<times> 'b) \<Rightarrow> 'b \<Rightarrow> (string \<times> string list) list \<Rightarrow>
   (ExecResult \<times> 'b) list" where
  "backend_run exec b [] = []"
| "backend_run exec b (cmd # rest) =
     (case exec b (fst cmd) (snd cmd) of (r, b1) \<Rightarrow> (r, b1) # backend_run exec b1 rest)"

text \<open>The calls up to and including the first one that reports failure.\<close>

definition until_failure :: "(ExecResult \<times> 'b) list \<Rightarrow> (ExecResult \<times> 'b) list" where
  "until_failure calls = take (Suc (length (takeWhile (exec_success \<circ> fst) calls))) calls"

definition all_succeed :: "(ExecResult \<times> 'b) list \<Rightarrow> bool" where
  "all_succeed calls = (length (takeWhile (exec_success \<circ> fst) calls) = length calls)"

definition to_result :: "(nat \<Rightarrow> Date) \<Rightarrow> nat \<Rightarrow> ExecResult \<Rightarrow> TaskResult" where
  "to_result clock i r =
     \<lparr>commandIndex = i, success = exec_success r, result_output = exec_output r,
      result_error = exec_error r, executedAt = clock i\<rparr>"

definition to_results :: "(nat \<Rightarrow> Date) \<Rightarrow> nat \<Rightarrow> (ExecResult \<times> 'b) list \<Rightarrow> TaskResult list" where
  "to_results clock i calls = map (\<lambda>(j, x). to_result clock j (fst x)) (enumerate i calls)"

text \<open>
  Scenario D of the specification, with a third command after the failing one: the task
  as submitted to a fresh runner, then approved; and a backend that logs its calls and
  reports failure for \<^verbatim>\<open>git push\<close>.
\<close>

definition scenario_D_commands :: "(string \<times> string list) list" where
  "scenario_D_commands = [(''git'', [''commit'']), (''git'', [''push'']), (''git'', [''status''])]"

definition scenario_D_submitted :: World where
  "scenario_D_submitted =
     snd (submitTask ''task-7'' 0 (\<lambda>i. 0) ''release-agent'' ''Commit and push''
            scenario_D_commands (new_World None None None))"

definition scenario_D_approved :: World where
  "scenario_D_approved = snd (approveTask ''task-7'' ''operator'' scenario_D_submitted)"

definition push_fails ::
  "(string \<times> string list) list \<Rightarrow> string \<Rightarrow> string list \<Rightarrow> ExecResult \<times> (string \<times> string list) list" where
  "push_fails log c a =
     (if a = [''push'']
      then \<lparr>exec_success = False, exec_output = None, exec_error = Some ''remote rejected''\<rparr>
      else \<lparr>exec_success = True, exec_output = Some ''ok'', exec_error = None\<rparr>,
      log @ [(c, a)])"

definition scenario_D_task :: Task where
  "scenario_D_task =
     fst (submitTask ''task-7'' 0 (\<lambda>i. 0) ''release-agent'' ''Commit and push''
            scenario_D_commands (new_World None None None))"

definition scenario_D_run :: "(js_error + Task) \<times> World \<times> (string \<times> string list) list" where
  "scenario_D_run =
     executeTask (returning push_fails) (\<lambda>i. 100 + i) 200 ''task-7'' scenario_D_approved []"

text \<open>
  The operations a caller can perform, what each lets the caller see, and a run of a
  sequence of operations. \<open>Timeout h\<close> is the event loop firing the timeout \<open>h\<close>.
\<close>

datatype 'b operation =
    Submit string Date "nat \<Rightarrow> Date" string string "(string \<times> string list) list"
  | Approve string string
  | Reject string "string option"
  | Execute "'b backend" "nat \<Rightarrow> Date" Date string
  | Wait string nat
  | Timeout nat
  | GetTask string
  | GetPendingApprovals
  | GetTaskHistory

datatype observation =
    Task_returned Task
  | Bool_returned bool
  | Execution_settled "js_error + Task"
  | Promise_returned wait_promise
  | No_value
  | Lookup "Task option"
  | Task_list "Task list"

fun step :: "'b operation \<Rightarrow> World \<times> 'b \<Rightarrow> observation \<times> World \<times> 'b" where
  "step (Submit taskId now stamps role descr cmds) (w, b) =
     (case submitTask taskId now stamps role descr cmds w of (t, w1) \<Rightarrow> (Task_returned t, w1, b))"
| "step (Approve taskId operator) (w, b) =
     (case approveTask taskId operator w of (v, w1) \<Rightarrow> (Bool_returned v, w1, b))"
| "step (Reject taskId why) (w, b) =
     (case rejectTask taskId why w of (v, w1) \<Rightarrow> (Bool_returned v, w1, b))"
| "step (Execute exec clock doneAt taskId) (w, b) =
     (case executeTask exec clock doneAt taskId w b of (r, w1, b1) \<Rightarrow> (Execution_settled r, w1, b1))"
| "step (Wait taskId timeoutMs) (w, b) =
     (case waitForApproval taskId timeoutMs w of (p, w1) \<Rightarrow> (Promise_returned p, w1, b))"
| "step (Timeout h) (w, b) = (No_value, timeout_fires h w, b)"
| "step (GetTask taskId) (w, b) = (Lookup (getTask taskId w), w, b)"
| "step GetPendingApprovals (w, b) = (Task_list (getPendingApprovals w), w, b)"
| "step GetTaskHistory (w, b) = (Task_list (getTaskHistory w), w, b)"

fun run :: "'b operation list \<Rightarrow> World \<times> 'b \<Rightarrow> observation list \<times> World \<times> 'b" where
  "run [] (w, b) = ([], w, b)"
| "run (x # xs) (w, b) =
     (case step x (w, b) of (seen, w1, b1) \<Rightarrow>
        (case run xs (w1, b1) of (seens, w2, b2) \<Rightarrow> (seen # seens, w2, b2)))"

text \<open>The same state with other values in the two configuration fields.\<close>

definition retune :: "int \<Rightarrow> bool \<Rightarrow> World \<Rightarrow> World" where
  "retune m a w =
     w\<lparr>runner := (runner w)\<lparr>config :=
          (config (runner w))\<lparr>maxPendingTasks := m, autoRejectBlockedTasks := a\<rparr>\<rparr>\<rparr>"

section \<open>Characters and strings\<close>

text \<open>
  The three character functions on a character given by its bits; these equations let the
  simplifier compute them on literals.
\<close>

lemma canonicalize_Char:
  "canonicalize (Char b0 b1 b2 b3 b4 b5 b6 b7) =
     (if b5 \<and> b6 \<and> ((\<not> b7 \<and> (b0 \<or> b1 \<or> b2 \<or> b3 \<or> b4) \<and> \<not> (b4 \<and> b3 \<and> (b2 \<or> (b1 \<and> b0))))
                    \<or> (b7 \<and> \<not> (b0 \<and> b1 \<and> b2 \<and> b3 \<and> b4) \<and> \<not> (b0 \<and> b1 \<and> b2 \<and> \<not> b3 \<and> b4)))
      then Char b0 b1 b2 b3 b4 False b6 b7 else Char b0 b1 b2 b3 b4 b5 b6 b7)"
  by (cases b0; cases b1; cases b2; cases b3; cases b4; cases b5; cases b6; cases b7;
      simp add: canonicalize_def char_of_eq_iff)

lemma toLowerCase_Char:
  "toLowerCase_char (Char b0 b1 b2 b3 b4 b5 b6 b7) =
     (if \<not> b5 \<and> b6 \<and> ((\<not> b7 \<and> (b0 \<or> b1 \<or> b2 \<or> b3 \<or> b4) \<and> \<not> (b4 \<and> b3 \<and> (b2 \<or> (b1 \<and> b0))))
                    \<or> (b7 \<and> \<not> (b0 \<and> b1 \<and> b2 \<and> b3 \<and> b4) \<and> \<not> (b0 \<and> b1 \<and> b2 \<and> \<not> b3 \<and> b4)))
      then Char b0 b1 b2 b3 b4 True b6 b7 else Char b0 b1 b2 b3 b4 b5 b6 b7)"
  by (cases b0; cases b1; cases b2; cases b3; cases b4; cases b5; cases b6; cases b7;
      simp add: toLowerCase_char_def char_of_eq_iff)

lemma is_space_Char:
  "is_space (Char b0 b1 b2 b3 b4 b5 b6 b7) =
     (\<not> b6 \<and> ((\<not> b7 \<and> \<not> b5 \<and> \<not> b4 \<and> b3 \<and> ((\<not> b2 \<and> (b0 \<or> b1)) \<or> (b2 \<and> \<not> b1)))
             \<or> (b5 \<and> \<not> b4 \<and> \<not> b3 \<and> \<not> b2 \<and> \<not> b1 \<and> \<not> b0)))"
  by (cases b0; cases b1; cases b2; cases b3; cases b4; cases b5; cases b6; cases b7;
      simp add: is_space_def)

lemma lower_BLOCKED: "map toLowerCase BLOCKED_COMMANDS = BLOCKED_COMMANDS"
  by (simp add: BLOCKED_COMMANDS_def toLowerCase_def toLowerCase_Char)

lemma distinct_BLOCKED: "distinct BLOCKED_COMMANDS"
  by (simp add: BLOCKED_COMMANDS_def)

lemma fold_set_add: "distinct (ys @ xs) \<Longrightarrow> fold set_add xs ys = ys @ xs"
  by (induction xs arbitrary: ys) (auto simp: set_add_def)

lemma new_Set_distinct: "distinct xs \<Longrightarrow> new_Set xs = xs"
  by (simp add: new_Set_def fold_set_add)

lemma set_fold_set_add: "set (fold set_add xs ys) = set ys \<union> set xs"
  by (induction xs arbitrary: ys) (auto simp: set_add_def)

section \<open>What \<^verbatim>\<open>validate\<close> computes\<close>

lemma check_blocked_eq:
  "check_blocked cl fc k vs = (if blocked_hit cl fc k then vs @ [blocked_violation k] else vs)"
  by (simp add: check_blocked_def blocked_hit_def)

lemma fold_check_blocked:
  "fold (check_blocked cl fc) ks vs = vs @ map blocked_violation (filter (blocked_hit cl fc) ks)"
  by (induction ks arbitrary: vs) (simp_all add: check_blocked_eq)

lemma fold_check_pattern:
  "fold (check_pattern fc) ps vs = vs @ map pattern_violation (filter (\<lambda>p. test p fc) ps)"
  by (induction ps arbitrary: vs) (simp_all add: check_pattern_def)

lemma validate_eq:
  "validate r sb =
     (if all_violations r sb \<noteq> [] then
        \<lparr>allowed = False, requiresApproval = False,
         reason = ''Command blocked - security policy violation'',
         riskLevel = R_blocked, violations = all_violations r sb\<rparr>
      else
        (let ra = check_approval (full_command r) (approvalRequired sb) in
         \<lparr>allowed = \<not> ra, requiresApproval = ra,
          reason = (if ra then ''Command requires human operator approval''
                    else ''Command passed validation''),
          riskLevel = (if ra then R_medium else R_safe), violations = []\<rparr>),
      sb\<lparr>auditLog := auditLog sb @ [r]\<rparr>)"
  by (simp add: validate_def Let_def fold_check_blocked fold_check_pattern all_violations_def
      command_lower_def)

lemma validate_violations: "violations (fst (validate r sb)) = all_violations r sb"
  by (simp add: validate_eq Let_def)

lemma validate_blocked_iff:
  "riskLevel (fst (validate r sb)) = R_blocked \<longleftrightarrow> all_violations r sb \<noteq> []"
  by (simp add: validate_eq Let_def)

lemma validate_sandbox: "snd (validate r sb) = sb\<lparr>auditLog := auditLog sb @ [r]\<rparr>"
  by (simp add: validate_eq)

lemma validate_auditLog_irrelevant:
  "fst (validate r (sb\<lparr>auditLog := l\<rparr>)) = fst (validate r sb)"
  by (simp add: validate_eq all_violations_def)

section \<open>The default policy, evaluated\<close>

lemma default_blockedCommands: "blockedCommands new_CommandSandbox = BLOCKED_COMMANDS"
  by (simp add: new_CommandSandbox_def lower_BLOCKED new_Set_distinct distinct_BLOCKED)

lemma default_dangerousPatterns: "dangerousPatterns new_CommandSandbox = DANGEROUS_PATTERNS"
  by (simp add: new_CommandSandbox_def)

lemma default_approvalRequired: "approvalRequired new_CommandSandbox = APPROVAL_REQUIRED"
proof -
  have "map toLowerCase APPROVAL_REQUIRED = APPROVAL_REQUIRED"
    by (simp add: APPROVAL_REQUIRED_def toLowerCase_def toLowerCase_Char)
  moreover have "distinct APPROVAL_REQUIRED"
    by (simp add: APPROVAL_REQUIRED_def)
  ultimately show ?thesis
    by (simp add: new_CommandSandbox_def new_Set_distinct)
qed

lemmas string_eval = toLowerCase_def toLowerCase_Char is_space_Char trim_def
  full_command_def command_lower_def

lemmas keyword_eval = blocked_hit_def check_blocked_def boundary_test_def match_here_def
  trailing_ok_def leading_char_def is_space_Char canonicalize_Char backslash_def

lemmas pattern_eval = regexp_def rexp_test_def seq_def alt_def accepts_char_def Plus_def Opt_def
  shells2_def is_space_Char canonicalize_Char

lemma scenario_A_violations:
  "all_violations scenario_A new_CommandSandbox =
     [''Blocked command: rm'',
      ''Dangerous pattern: rm'' @ [backslash] @ ''s+(-rf?|--force|--recursive)'']"
proof -
  have fc: "full_command scenario_A = ''rm -rf /tmp/data''"
    by (simp add: scenario_A_def string_eval)
  have cl: "command_lower scenario_A = ''rm''"
    by (simp add: scenario_A_def string_eval)
  have kw: "filter (blocked_hit ''rm'' ''rm -rf /tmp/data'') BLOCKED_COMMANDS = [''rm'']"
    by (simp add: BLOCKED_COMMANDS_def keyword_eval)
  have pt: "map source (filter (\<lambda>p. test p ''rm -rf /tmp/data'') DANGEROUS_PATTERNS) =
              [''rm'' @ [backslash] @ ''s+(-rf?|--force|--recursive)'']"
    by (simp add: DANGEROUS_PATTERNS_def pattern_eval)
  have "map pattern_violation (filter (\<lambda>p. test p ''rm -rf /tmp/data'') DANGEROUS_PATTERNS) =
          map (\<lambda>s. ''Dangerous pattern: '' @ s)
            (map source (filter (\<lambda>p. test p ''rm -rf /tmp/data'') DANGEROUS_PATTERNS))"
    by (simp add: pattern_violation_def comp_def)
  then show ?thesis
    by (simp add: all_violations_def fc cl kw pt default_blockedCommands
        default_dangerousPatterns blocked_violation_def)
qed

section \<open>Claims about the validation engine\<close>

text \<open>
  C3. Every outcome of \<^verbatim>\<open>validate\<close> satisfies both invariants of the data model: an
  outcome whose risk level is blocked is neither allowed nor in need of approval, and its
  list of violations is non-empty exactly when its risk level is blocked.
\<close>

theorem validate_outcome_invariants:
  "(riskLevel (fst (validate r sb)) = R_blocked \<longrightarrow>
      \<not> allowed (fst (validate r sb)) \<and> \<not> requiresApproval (fst (validate r sb))) \<and>
   (violations (fst (validate r sb)) \<noteq> [] \<longleftrightarrow> riskLevel (fst (validate r sb)) = R_blocked)"
  by (simp add: validate_eq Let_def)

theorem validate_outcome_invariants_witness:
  "riskLevel (fst (validate scenario_A new_CommandSandbox)) = R_blocked \<and>
   \<not> allowed (fst (validate scenario_A new_CommandSandbox)) \<and>
   \<not> requiresApproval (fst (validate scenario_A new_CommandSandbox)) \<and>
   violations (fst (validate scenario_A new_CommandSandbox)) \<noteq> []"
proof -
  have blocked: "riskLevel (fst (validate scenario_A new_CommandSandbox)) = R_blocked"
    by (simp add: validate_blocked_iff scenario_A_violations)
  with validate_outcome_invariants [of scenario_A new_CommandSandbox]
  show ?thesis by blast
qed

text \<open>
  C5. \<^verbatim>\<open>validate\<close> never leaves its loops at a match: the violations of its outcome
  are one entry for every blocked keyword that matches, in the order of the keyword set,
  followed by one entry for every dangerous pattern that matches, in the order of the
  pattern list. For \<^verbatim>\<open>rm\<close> with the arguments \<^verbatim>\<open>-rf\<close> and
  \<^verbatim>\<open>/tmp/data\<close> under the default policy the outcome is blocked, and its violations
  are the one for the keyword \<^verbatim>\<open>rm\<close> and the one for the \<^verbatim>\<open>-rf\<close> pattern.
\<close>

theorem validate_accumulates_violations:
  "violations (fst (validate r sb)) =
     map blocked_violation
       (filter (\<lambda>k. if str_includes k '' ''
                    then str_includes (full_command r) k \<or> boundary_test k (full_command r)
                    else command_lower r = k \<or> boundary_test k (full_command r))
          (blockedCommands sb)) @
     map pattern_violation (filter (\<lambda>p. test p (full_command r)) (dangerousPatterns sb)) \<and>
   riskLevel (fst (validate scenario_A new_CommandSandbox)) = R_blocked \<and>
   violations (fst (validate scenario_A new_CommandSandbox)) =
     [''Blocked command: rm'',
      ''Dangerous pattern: rm'' @ [backslash] @ ''s+(-rf?|--force|--recursive)'']"
proof -
  have hit: "blocked_hit cl fc =
      (\<lambda>k. if str_includes k '' '' then str_includes fc k \<or> boundary_test k fc
           else cl = k \<or> boundary_test k fc)" for cl fc
    by (rule ext) (simp add: blocked_hit_def check_blocked_def)
  have "violations (fst (validate r sb)) = all_violations r sb"
    by (rule validate_violations)
  moreover have "riskLevel (fst (validate scenario_A new_CommandSandbox)) = R_blocked"
    by (simp add: validate_blocked_iff scenario_A_violations)
  moreover have "violations (fst (validate scenario_A new_CommandSandbox)) =
     [''Blocked command: rm'',
      ''Dangerous pattern: rm'' @ [backslash] @ ''s+(-rf?|--force|--recursive)'']"
    by (simp only: validate_violations scenario_A_violations)
  ultimately show ?thesis
    by (simp only: all_violations_def hit)
qed

theorem validate_accumulates_violations_witness:
  "violations (fst (validate scenario_sudo new_CommandSandbox)) =
     [''Blocked command: rm'',
      ''Dangerous pattern: rm'' @ [backslash] @ ''s+(-rf?|--force|--recursive)'',
      ''Dangerous pattern: sudo'' @ [backslash] @ ''s+'']"
proof -
  have fc: "full_command scenario_sudo = ''sudo rm -r x''"
    by (simp add: scenario_sudo_def string_eval)
  have cl: "command_lower scenario_sudo = ''sudo''"
    by (simp add: scenario_sudo_def string_eval)
  have kw: "filter (\<lambda>k. if str_includes k '' ''
                    then str_includes ''sudo rm -r x'' k \<or> boundary_test k ''sudo rm -r x''
                    else ''sudo'' = k \<or> boundary_test k ''sudo rm -r x'') BLOCKED_COMMANDS = [''rm'']"
    by (simp add: BLOCKED_COMMANDS_def keyword_eval)
  have pt: "map source (filter (\<lambda>p. test p ''sudo rm -r x'') DANGEROUS_PATTERNS) =
              [''rm'' @ [backslash] @ ''s+(-rf?|--force|--recursive)'',
               ''sudo'' @ [backslash] @ ''s+'']"
    by (simp add: DANGEROUS_PATTERNS_def pattern_eval)
  have pv: "map pattern_violation ps = map (\<lambda>s. ''Dangerous pattern: '' @ s) (map source ps)" for ps
    by (simp add: pattern_violation_def comp_def)
  from validate_accumulates_violations [of scenario_sudo new_CommandSandbox]
  have "violations (fst (validate scenario_sudo new_CommandSandbox)) =
     map blocked_violation
       (filter (\<lambda>k. if str_includes k '' ''
                    then str_includes ''sudo rm -r x'' k \<or> boundary_test k ''sudo rm -r x''
                    else ''sudo'' = k \<or> boundary_test k ''sudo rm -r x'') BLOCKED_COMMANDS) @
     map pattern_violation (filter (\<lambda>p. test p ''sudo rm -r x'') DANGEROUS_PATTERNS)"
    by (simp only: fc cl default_blockedCommands default_dangerousPatterns)
  then show ?thesis
    by (simp only: kw pv pt) (simp add: blocked_violation_def)
qed

section \<open>Which keywords leave a violation\<close>

lemma blocked_violation_inj: "blocked_violation a = blocked_violation b \<longleftrightarrow> a = b"
  by (simp add: blocked_violation_def)

lemma blocked_not_pattern: "blocked_violation k \<noteq> pattern_violation p"
  by (simp add: blocked_violation_def pattern_violation_def)

lemma blocked_violation_mem:
  "blocked_violation k \<in> set (all_violations r sb) \<longleftrightarrow>
     k \<in> set (blockedCommands sb) \<and> blocked_hit (command_lower r) (full_command r) k"
  by (auto simp: all_violations_def blocked_violation_inj blocked_not_pattern)

lemma boundary_hit: "boundary_test k fc \<Longrightarrow> blocked_hit cl fc k"
  by (simp add: blocked_hit_def check_blocked_def)

lemma multi_token_hit:
  "str_includes k '' '' \<Longrightarrow> blocked_hit cl fc k = (str_includes fc k \<or> boundary_test k fc)"
  by (simp add: blocked_hit_def check_blocked_def)

lemma ci_starts_with_self: "ci_starts_with (k @ post) k"
  by (induction k) simp_all

lemma ci_starts_with_refl: "ci_starts_with k k"
  using ci_starts_with_self [of k "[]"] by simp

lemma match_here_self: "post = [] \<or> is_space (hd post) \<Longrightarrow> match_here k (k @ post)"
  by (cases post)
    (simp_all add: match_here_def ci_starts_with_self ci_starts_with_refl trailing_ok_def)

lemma boundary_scan_occurrence:
  assumes "pre = [] \<longrightarrow> lead" and "pre \<noteq> [] \<longrightarrow> leading_char (last pre)"
    and "post = [] \<or> is_space (hd post)"
  shows "boundary_scan lead k (pre @ k @ post)"
  using assms(1,2)
proof (induction pre arbitrary: lead)
  case Nil
  then have "lead" by simp
  moreover have "match_here k (k @ post)" using assms(3) by (rule match_here_self)
  ultimately show ?case by (cases "k @ post") simp_all
next
  case (Cons c pre)
  have "boundary_scan (leading_char c) k (pre @ k @ post)"
    using Cons.prems(2) by (intro Cons.IH) (auto split: if_splits)
  then show ?case by simp
qed

lemma ci_starts_with_length: "ci_starts_with s k \<Longrightarrow> length k \<le> length s"
  by (induction s k rule: ci_starts_with.induct) (auto split: if_splits)

lemma ci_starts_with_take: "ci_starts_with s k \<Longrightarrow> ci_starts_with (take (length k) s) k"
  by (induction s k rule: ci_starts_with.induct) (auto split: if_splits)

lemma boundary_scan_trailing:
  "boundary_scan lead k s \<Longrightarrow>
     \<exists>pre mid post. s = pre @ mid @ post \<and> length mid = length k \<and> ci_starts_with mid k \<and>
        (if pre = [] then lead else leading_char (last pre)) \<and>
        (post = [] \<or> is_space (hd post))"
proof (induction s arbitrary: lead)
  case Nil
  then have "lead" and "k = []"
    by (auto simp: match_here_def split: if_splits elim: ci_starts_with.elims)
  then show ?case by simp
next
  case (Cons c cs)
  show ?case
  proof (cases "lead \<and> match_here k (c # cs)")
    case True
    then have ci: "ci_starts_with (c # cs) k" and tr: "trailing_ok (drop (length k) (c # cs))"
      by (auto simp: match_here_def split: if_splits)
    have len: "length k \<le> length (c # cs)"
      using ci by (rule ci_starts_with_length)
    have ci': "ci_starts_with (take (length k) (c # cs)) k"
      using ci by (rule ci_starts_with_take)
    let ?mid = "take (length k) (c # cs)" and ?post = "drop (length k) (c # cs)"
    have "c # cs = [] @ ?mid @ ?post" by simp
    moreover have "length ?mid = length k" using len by simp
    moreover have "?post = [] \<or> is_space (hd ?post)"
      using tr by (cases ?post) (simp_all add: trailing_ok_def)
    ultimately show ?thesis using True ci' by (intro exI[of _ "[]"] exI[of _ ?mid] exI[of _ ?post]) simp
  next
    case False
    then have "boundary_scan (leading_char c) k cs" using Cons.prems by (auto split: if_splits)
    from Cons.IH[OF this] obtain pre mid post where
      s: "cs = pre @ mid @ post" and l: "length mid = length k" and ci: "ci_starts_with mid k"
      and ld: "if pre = [] then leading_char c else leading_char (last pre)"
      and tr: "post = [] \<or> is_space (hd post)" by blast
    have "c # cs = (c # pre) @ mid @ post" using s by simp
    moreover have "leading_char (last (c # pre))" using ld by (auto split: if_splits)
    ultimately show ?thesis using l ci tr
      by (intro exI[of _ "c # pre"] exI[of _ mid] exI[of _ post]) simp
  qed
qed

text \<open>
  C1, as the specification states it, fails: the keyword \<^verbatim>\<open>npm install -g\<close> has an
  internal separator and occurs in \<^verbatim>\<open>mynpm install -g\<close> only glued to the longer
  token \<^verbatim>\<open>mynpm\<close>, never between word boundaries; yet \<^verbatim>\<open>validate\<close> classifies the
  command as blocked, and that keyword is its only violation.
\<close>

theorem glued_multi_token_keyword_is_blocked:
  "''npm install -g'' \<in> set (blockedCommands new_CommandSandbox) \<and>
   str_includes ''npm install -g'' '' '' \<and>
   full_command concat_bypass = ''mynpm install -g'' \<and>
   \<not> spec_word_boundary_match ''npm install -g'' (full_command concat_bypass) \<and>
   riskLevel (fst (validate concat_bypass new_CommandSandbox)) = R_blocked \<and>
   violations (fst (validate concat_bypass new_CommandSandbox)) =
     [''Blocked command: npm install -g'']"
proof -
  have fc: "full_command concat_bypass = ''mynpm install -g''"
    by (simp add: concat_bypass_def string_eval)
  have cl: "command_lower concat_bypass = ''mynpm''"
    by (simp add: concat_bypass_def string_eval)
  have kw: "filter (blocked_hit ''mynpm'' ''mynpm install -g'') BLOCKED_COMMANDS =
              [''npm install -g'']"
    by (simp add: BLOCKED_COMMANDS_def keyword_eval)
  have pt: "filter (\<lambda>p. test p ''mynpm install -g'') DANGEROUS_PATTERNS = []"
    by (simp add: DANGEROUS_PATTERNS_def pattern_eval)
  have vs: "all_violations concat_bypass new_CommandSandbox = [''Blocked command: npm install -g'']"
    by (simp add: all_violations_def fc cl kw pt default_blockedCommands
        default_dangerousPatterns blocked_violation_def)
  have "''npm install -g'' \<in> set (blockedCommands new_CommandSandbox)"
    by (simp add: default_blockedCommands BLOCKED_COMMANDS_def)
  moreover have "str_includes ''npm install -g'' '' ''"
    by simp
  moreover have "\<not> spec_word_boundary_match ''npm install -g'' ''mynpm install -g''"
    by (simp add: spec_word_boundary_match_def spec_bounded_here_def spec_boundary_char_def
        is_space_Char backslash_def)
  moreover have "riskLevel (fst (validate concat_bypass new_CommandSandbox)) = R_blocked"
    by (simp add: validate_blocked_iff vs)
  ultimately show ?thesis
    by (simp only: fc validate_violations vs) simp
qed

text \<open>
  C1, amended: for a blocked keyword with an internal separator, \<^verbatim>\<open>validate\<close>
  records a violation for that keyword exactly when the keyword occurs somewhere in the
  normalized full command as a substring or the boundary pattern built from the keyword
  matches the full command. An occurrence as a substring needs no word boundary: whenever
  the keyword occurs in the full command, also inside a longer token, the violation is
  recorded and the command is classified blocked.
\<close>

theorem multi_token_keyword_blocks_as_substring:
  assumes "k \<in> set (blockedCommands sb)" and "str_includes k '' ''"
  shows "(blocked_violation k \<in> set (violations (fst (validate r sb))) \<longleftrightarrow>
            str_includes (full_command r) k \<or> boundary_test k (full_command r)) \<and>
         (str_includes (full_command r) k \<longrightarrow>
            blocked_violation k \<in> set (violations (fst (validate r sb))) \<and>
            riskLevel (fst (validate r sb)) = R_blocked)"
proof -
  have hit: "blocked_hit (command_lower r) (full_command r) k \<longleftrightarrow>
               str_includes (full_command r) k \<or> boundary_test k (full_command r)"
    using multi_token_hit [OF assms(2)] by simp
  have mem: "blocked_violation k \<in> set (violations (fst (validate r sb))) \<longleftrightarrow>
               str_includes (full_command r) k \<or> boundary_test k (full_command r)"
    using assms(1) hit by (simp add: validate_violations blocked_violation_mem)
  have "riskLevel (fst (validate r sb)) = R_blocked" if "str_includes (full_command r) k"
  proof -
    have "blocked_violation k \<in> set (all_violations r sb)"
      using that assms(1) hit by (simp add: blocked_violation_mem)
    then have "all_violations r sb \<noteq> []" by auto
    then show ?thesis by (simp add: validate_blocked_iff)
  qed
  with mem show ?thesis by blast
qed

theorem multi_token_keyword_blocks_as_substring_witness:
  "''npm install -g'' \<in> set (blockedCommands new_CommandSandbox) \<and>
   str_includes ''npm install -g'' '' '' \<and>
   str_includes (full_command concat_bypass) ''npm install -g'' \<and>
   blocked_violation ''npm install -g'' \<in> set (violations (fst (validate concat_bypass new_CommandSandbox))) \<and>
   riskLevel (fst (validate concat_bypass new_CommandSandbox)) = R_blocked"
proof -
  have a: "''npm install -g'' \<in> set (blockedCommands new_CommandSandbox)"
    by (simp add: default_blockedCommands BLOCKED_COMMANDS_def)
  have b: "str_includes ''npm install -g'' '' ''"
    by simp
  have d: "str_includes (full_command concat_bypass) ''npm install -g''"
    by (simp add: concat_bypass_def string_eval)
  from multi_token_keyword_blocks_as_substring [OF a b, of concat_bypass] a b d
  show ?thesis by blast
qed

text \<open>
  C4, as the specification states it, fails: in \<^verbatim>\<open>ls rm/\<close> the blocked keyword
  \<^verbatim>\<open>rm\<close> stands between a space and a path separator, and the command is classified
  safe.
\<close>

theorem keyword_before_separator_is_not_blocked:
  "''rm'' \<in> set (blockedCommands new_CommandSandbox) \<and>
   full_command trailing_slash = ''ls '' @ ''rm'' @ ''/'' \<and>
   riskLevel (fst (validate trailing_slash new_CommandSandbox)) = R_safe \<and>
   allowed (fst (validate trailing_slash new_CommandSandbox)) \<and>
   violations (fst (validate trailing_slash new_CommandSandbox)) = []"
proof -
  have fc: "full_command trailing_slash = ''ls rm/''"
    by (simp add: trailing_slash_def string_eval)
  have cl: "command_lower trailing_slash = ''ls''"
    by (simp add: trailing_slash_def string_eval)
  have kw: "filter (blocked_hit ''ls'' ''ls rm/'') BLOCKED_COMMANDS = []"
    by (simp add: BLOCKED_COMMANDS_def keyword_eval)
  have pt: "filter (\<lambda>p. test p ''ls rm/'') DANGEROUS_PATTERNS = []"
    by (simp add: DANGEROUS_PATTERNS_def pattern_eval)
  have ap: "\<not> check_approval ''ls rm/'' APPROVAL_REQUIRED"
    by (simp add: APPROVAL_REQUIRED_def keyword_eval)
  have vs: "all_violations trailing_slash new_CommandSandbox = []"
    by (simp add: all_violations_def fc cl kw pt default_blockedCommands default_dangerousPatterns)
  have "''rm'' \<in> set (blockedCommands new_CommandSandbox)"
    by (simp add: default_blockedCommands BLOCKED_COMMANDS_def)
  then show ?thesis
    using ap by (simp add: validate_eq vs fc default_approvalRequired)
qed

text \<open>
  C4, amended: the matcher takes a path separator for a boundary before a keyword only.
  A blocked keyword that stands in the normalized full command after the start of the
  string, white space or a path separator, and before white space or the end of the
  string, matches, and the command is classified blocked with a violation for that
  keyword. And wherever the matcher accepts a keyword, what follows the matched text is
  white space or the end of the string.
\<close>

theorem keyword_after_separator_is_blocked:
  assumes "k \<in> set (blockedCommands sb)" and "full_command r = pre @ k @ post"
    and "pre = [] \<or> leading_char (last pre)" and "post = [] \<or> is_space (hd post)"
  shows "boundary_test k (full_command r) \<and>
         riskLevel (fst (validate r sb)) = R_blocked \<and>
         blocked_violation k \<in> set (violations (fst (validate r sb))) \<and>
         (boundary_test k' s \<longrightarrow>
            (\<exists>before mid after. s = before @ mid @ after \<and> length mid = length k' \<and>
               ci_starts_with mid k' \<and> (before = [] \<or> leading_char (last before)) \<and>
               (after = [] \<or> is_space (hd after))))"
proof -
  have bt: "boundary_test k (full_command r)"
    unfolding boundary_test_def assms(2)
    using assms(3,4) by (intro boundary_scan_occurrence) auto
  then have "blocked_violation k \<in> set (all_violations r sb)"
    using assms(1) by (simp add: blocked_violation_mem boundary_hit)
  moreover from this have "all_violations r sb \<noteq> []" by auto
  moreover have "\<exists>before mid after. s = before @ mid @ after \<and> length mid = length k' \<and>
       ci_starts_with mid k' \<and> (before = [] \<or> leading_char (last before)) \<and>
       (after = [] \<or> is_space (hd after))" if "boundary_test k' s"
  proof -
    from that obtain before mid after where
      "s = before @ mid @ after" "length mid = length k'" "ci_starts_with mid k'"
      "if before = [] then True else leading_char (last before)"
      "after = [] \<or> is_space (hd after)"
      using boundary_scan_trailing [of True k' s] unfolding boundary_test_def by blast
    then show ?thesis
      by (intro exI[of _ before] exI[of _ mid] exI[of _ after]) (auto split: if_splits)
  qed
  ultimately show ?thesis
    using bt by (simp add: validate_violations validate_blocked_iff)
qed

theorem keyword_after_separator_is_blocked_witness:
  "''rm'' \<in> set (blockedCommands new_CommandSandbox) \<and>
   full_command path_prefixed = ''/usr/bin/'' @ ''rm'' @ '' notes.txt'' \<and>
   leading_char (last ''/usr/bin/'') \<and> is_space (hd '' notes.txt'') \<and>
   riskLevel (fst (validate path_prefixed new_CommandSandbox)) = R_blocked \<and>
   blocked_violation ''rm'' \<in> set (violations (fst (validate path_prefixed new_CommandSandbox)))"
proof -
  have a: "''rm'' \<in> set (blockedCommands new_CommandSandbox)"
    by (simp add: default_blockedCommands BLOCKED_COMMANDS_def)
  have b: "full_command path_prefixed = ''/usr/bin/'' @ ''rm'' @ '' notes.txt''"
    by (simp add: path_prefixed_def string_eval)
  have c: "leading_char (last ''/usr/bin/'')"
    by (simp add: leading_char_def)
  have d: "is_space (hd '' notes.txt'')"
    by (simp add: is_space_Char)
  from keyword_after_separator_is_blocked [OF a b, of "''rm''" "''rm''"] a b c d
  show ?thesis by blast
qed

section \<open>What \<^verbatim>\<open>submitTask\<close> computes\<close>

lemma task_requests_Nil: "task_requests taskId role stamps i [] = []"
  by (simp add: task_requests_def)

lemma task_requests_Cons:
  "task_requests taskId role stamps i (cmd # rest) =
     make_request taskId role stamps i cmd # task_requests taskId role stamps (Suc i) rest"
  by (simp add: task_requests_def)

lemma length_task_requests: "length (task_requests taskId role stamps i cmds) = length cmds"
  by (simp add: task_requests_def)

lemma validate_after_audit:
  "fst (validate r (snd (validate q sb))) = fst (validate r sb)"
  by (simp add: validate_sandbox validate_auditLog_irrelevant)

lemma validate_commands_result:
  assumes "validate_commands taskId role stamps i cmds (vrs, hb, na, task, sb) =
             (vrs', hb', na', task', sb')"
  shows "vrs' = vrs @ map (\<lambda>r. fst (validate r sb)) (task_requests taskId role stamps i cmds) \<and>
         hb' = (hb \<or> (\<exists>r \<in> set (task_requests taskId role stamps i cmds).
                         riskLevel (fst (validate r sb)) = R_blocked)) \<and>
         na' = (na \<or> (\<exists>r \<in> set (task_requests taskId role stamps i cmds).
                         requiresApproval (fst (validate r sb)))) \<and>
         sb' = sb\<lparr>auditLog := auditLog sb @ task_requests taskId role stamps i cmds\<rparr> \<and>
         (\<exists>bs. task' = task\<lparr>task_blockedCommands := bs\<rparr>)"
  using assms
proof (induction cmds arbitrary: i vrs hb na task sb)
  case Nil
  then show ?case
    by (auto simp: task_requests_Nil intro: exI[of _ "task_blockedCommands task"])
next
  case (Cons cmd rest)
  let ?q = "make_request taskId role stamps i cmd"
  let ?result = "fst (validate ?q sb)"
  let ?sb1 = "snd (validate ?q sb)"
  let ?task1 = "if riskLevel ?result = R_blocked
                then task\<lparr>task_blockedCommands :=
                       task_blockedCommands task @ [fst cmd @ '' '' @ join '' '' (snd cmd)]\<rparr>
                else task"
  have step: "validate_commands taskId role stamps (Suc i) rest
          (vrs @ [?result], (if riskLevel ?result = R_blocked then True else hb),
           (if requiresApproval ?result then True else na), ?task1, ?sb1) =
        (vrs', hb', na', task', sb')"
    using Cons.prems by (simp only: validate_commands.simps Let_def case_prod_beta)
  have same: "map (\<lambda>r. fst (validate r ?sb1)) rs = map (\<lambda>r. fst (validate r sb)) rs" for rs
    by (simp add: validate_after_audit)
  from Cons.IH [OF step] obtain bs where
    a: "vrs' = (vrs @ [?result]) @
          map (\<lambda>r. fst (validate r ?sb1)) (task_requests taskId role stamps (Suc i) rest)"
    and b: "hb' = ((if riskLevel ?result = R_blocked then True else hb) \<or>
          (\<exists>r \<in> set (task_requests taskId role stamps (Suc i) rest).
             riskLevel (fst (validate r ?sb1)) = R_blocked))"
    and c: "na' = ((if requiresApproval ?result then True else na) \<or>
          (\<exists>r \<in> set (task_requests taskId role stamps (Suc i) rest).
             requiresApproval (fst (validate r ?sb1))))"
    and d: "sb' = ?sb1\<lparr>auditLog := auditLog ?sb1 @ task_requests taskId role stamps (Suc i) rest\<rparr>"
    and e: "task' = ?task1\<lparr>task_blockedCommands := bs\<rparr>"
    by blast
  have "vrs' = vrs @ map (\<lambda>r. fst (validate r sb)) (task_requests taskId role stamps i (cmd # rest))"
    using a by (simp add: same task_requests_Cons)
  moreover have "hb' = (hb \<or> (\<exists>r \<in> set (task_requests taskId role stamps i (cmd # rest)).
                         riskLevel (fst (validate r sb)) = R_blocked))"
    using b by (auto simp: validate_after_audit task_requests_Cons)
  moreover have "na' = (na \<or> (\<exists>r \<in> set (task_requests taskId role stamps i (cmd # rest)).
                         requiresApproval (fst (validate r sb))))"
    using c by (auto simp: validate_after_audit task_requests_Cons)
  moreover have "sb' = sb\<lparr>auditLog := auditLog sb @ task_requests taskId role stamps i (cmd # rest)\<rparr>"
    using d by (simp add: validate_sandbox task_requests_Cons)
  moreover have "\<exists>bs. task' = task\<lparr>task_blockedCommands := bs\<rparr>"
    using e by (auto split: if_splits)
  ultimately show ?case by blast
qed

lemma submitTask_result:
  "\<exists>bs. submitTask taskId now stamps role descr cmds w =
     (let reqs = task_requests taskId role stamps 0 cmds;
          task = \<lparr>task_id = taskId, agentRole = role, description = descr, commands = cmds,
                  status =
                    (if \<exists>r \<in> set reqs. riskLevel (fst (validate r (sandbox w))) = R_blocked
                     then S_blocked
                     else if (\<exists>r \<in> set reqs. requiresApproval (fst (validate r (sandbox w)))) \<or>
                             requireApprovalForAll (config (runner w))
                     then S_awaiting_approval else S_approved),
                  createdAt = now, completedAt = None, results = [],
                  task_blockedCommands = bs\<rparr>
      in (task,
          set_tasks (AList.update taskId task (tasks (runner w)))
            (w\<lparr>sandbox := (sandbox w)\<lparr>auditLog := auditLog (sandbox w) @ reqs\<rparr>\<rparr>)))"
proof -
  let ?task0 = "\<lparr>task_id = taskId, agentRole = role, description = descr, commands = cmds,
                  status = S_pending, createdAt = now, completedAt = None, results = [],
                  task_blockedCommands = []\<rparr>"
  obtain vrs' hb' na' task' sb' where
    loop: "validate_commands taskId role stamps 0 cmds
             ([], False, requireApprovalForAll (config (runner w)), ?task0, sandbox w) =
           (vrs', hb', na', task', sb')"
    by (metis prod_cases5)
  from validate_commands_result [OF loop] obtain bs where
    hb: "hb' = (\<exists>r \<in> set (task_requests taskId role stamps 0 cmds).
                  riskLevel (fst (validate r (sandbox w))) = R_blocked)"
    and na: "na' = (requireApprovalForAll (config (runner w)) \<or>
                 (\<exists>r \<in> set (task_requests taskId role stamps 0 cmds).
                    requiresApproval (fst (validate r (sandbox w)))))"
    and sb: "sb' = (sandbox w)\<lparr>auditLog := auditLog (sandbox w) @
                     task_requests taskId role stamps 0 cmds\<rparr>"
    and task: "task' = ?task0\<lparr>task_blockedCommands := bs\<rparr>"
    by auto
  show ?thesis
    by (rule exI[of _ bs])
       (auto simp: submitTask_def loop Let_def hb na sb task set_tasks_def)
qed

lemma submitTask_status:
  "status (fst (submitTask taskId now stamps role descr cmds w)) =
     (if \<exists>r \<in> set (task_requests taskId role stamps 0 cmds).
           riskLevel (fst (validate r (sandbox w))) = R_blocked
      then S_blocked
      else if (\<exists>r \<in> set (task_requests taskId role stamps 0 cmds).
                 requiresApproval (fst (validate r (sandbox w)))) \<or>
              requireApprovalForAll (config (runner w))
      then S_awaiting_approval else S_approved)"
  using submitTask_result [of taskId now stamps role descr cmds w]
  by (auto simp: Let_def)

lemma submitTask_fields:
  "commands (fst (submitTask taskId now stamps role descr cmds w)) = cmds"
  "results (fst (submitTask taskId now stamps role descr cmds w)) = []"
  "completedAt (fst (submitTask taskId now stamps role descr cmds w)) = None"
  "task_id (fst (submitTask taskId now stamps role descr cmds w)) = taskId"
  using submitTask_result [of taskId now stamps role descr cmds w]
  by (auto simp: Let_def)

lemma submitTask_world:
  "snd (submitTask taskId now stamps role descr cmds w) =
     set_tasks (AList.update taskId (fst (submitTask taskId now stamps role descr cmds w))
                  (tasks (runner w)))
       (w\<lparr>sandbox := (sandbox w)\<lparr>auditLog := auditLog (sandbox w) @
                                     task_requests taskId role stamps 0 cmds\<rparr>\<rparr>)"
  using submitTask_result [of taskId now stamps role descr cmds w]
  by (auto simp: Let_def)

lemma submitTask_stored:
  "map_of (tasks (runner (snd (submitTask taskId now stamps role descr cmds w)))) taskId =
     Some (fst (submitTask taskId now stamps role descr cmds w))"
  by (simp add: submitTask_world set_tasks_def update_conv')

lemma submitTask_auditLog:
  "auditLog (sandbox (snd (submitTask taskId now stamps role descr cmds w))) =
     auditLog (sandbox w) @ task_requests taskId role stamps 0 cmds"
  by (simp add: submitTask_world set_tasks_def)

lemma all_violations_cong:
  "command r = command q \<Longrightarrow> args r = args q \<Longrightarrow> all_violations r sb = all_violations q sb"
  by (simp add: all_violations_def command_lower_def full_command_def)

lemma blocked_submission_has_blocked:
  "\<exists>r \<in> set (task_requests ''task-1'' ''cleanup-agent'' (\<lambda>i. 0) 0
                 [(''ls'', [''-la'']), (''rm'', [''-rf'', ''/tmp/data''])]).
      riskLevel (fst (validate r (sandbox (new_World None None None)))) = R_blocked"
proof -
  let ?r = "make_request ''task-1'' ''cleanup-agent'' (\<lambda>i. 0) 1 (''rm'', [''-rf'', ''/tmp/data''])"
  have "all_violations ?r new_CommandSandbox = all_violations scenario_A new_CommandSandbox"
    by (rule all_violations_cong) (simp_all add: make_request_def scenario_A_def)
  then have "riskLevel (fst (validate ?r new_CommandSandbox)) = R_blocked"
    by (simp add: validate_blocked_iff scenario_A_violations)
  then show ?thesis
    by (simp add: task_requests_Cons new_World_def)
qed

section \<open>Claims about submission\<close>

text \<open>
  C2. The status of the task that \<^verbatim>\<open>submitTask\<close> returns is blocked if the outcome of
  validating any of its commands has the risk level blocked, whatever the other outcomes
  are; else awaiting approval if an outcome requires approval or the runner is configured
  to require approval for all tasks; else approved. A blocked task has no approval step:
  approving it is refused.
\<close>

theorem submitTask_aggregates_outcomes:
  "status (fst (submitTask taskId now stamps role descr cmds w)) =
     (if \<exists>r \<in> set (task_requests taskId role stamps 0 cmds).
           riskLevel (fst (validate r (sandbox w))) = R_blocked
      then S_blocked
      else if (\<exists>r \<in> set (task_requests taskId role stamps 0 cmds).
                 requiresApproval (fst (validate r (sandbox w)))) \<or>
              requireApprovalForAll (config (runner w))
      then S_awaiting_approval else S_approved) \<and>
   (status (fst (submitTask taskId now stamps role descr cmds w)) = S_blocked \<longrightarrow>
      approveTask taskId operator (snd (submitTask taskId now stamps role descr cmds w)) =
        (False, snd (submitTask taskId now stamps role descr cmds w)))"
proof -
  have "approveTask taskId operator (snd (submitTask taskId now stamps role descr cmds w)) =
          (False, snd (submitTask taskId now stamps role descr cmds w))"
    if "status (fst (submitTask taskId now stamps role descr cmds w)) = S_blocked"
    using that by (simp add: approveTask_def submitTask_stored)
  then show ?thesis
    by (simp only: submitTask_status) simp
qed

theorem submitTask_aggregates_outcomes_witness:
  "status (fst blocked_submission) = S_blocked \<and>
   approveTask ''task-1'' ''operator'' (snd blocked_submission) = (False, snd blocked_submission)"
proof -
  have "status (fst blocked_submission) = S_blocked"
    using submitTask_aggregates_outcomes
      [of "''task-1''" 0 "\<lambda>i. 0" "''cleanup-agent''" "''Remove temporary files''"
          "[(''ls'', [''-la'']), (''rm'', [''-rf'', ''/tmp/data''])]" "new_World None None None"]
      blocked_submission_has_blocked
    by (simp add: blocked_submission_def)
  with submitTask_aggregates_outcomes
      [of "''task-1''" 0 "\<lambda>i. 0" "''cleanup-agent''" "''Remove temporary files''"
          "[(''ls'', [''-la'']), (''rm'', [''-rf'', ''/tmp/data''])]" "new_World None None None"
          "''operator''"]
  show ?thesis
    by (simp add: blocked_submission_def)
qed

text \<open>
  C6. Every call of \<^verbatim>\<open>validate\<close> appends its request to the audit log, whatever the
  outcome, and changes nothing else in the sandbox; and the outcome does not depend on the
  log. So submitting a task with \<open>n\<close> commands appends the \<open>n\<close> requests of its commands,
  in order, whether the task ends blocked, awaiting approval or approved.
\<close>

theorem validate_appends_one_audit_record:
  "snd (validate r sb) = sb\<lparr>auditLog := auditLog sb @ [r]\<rparr> \<and>
   fst (validate r (sb\<lparr>auditLog := l\<rparr>)) = fst (validate r sb) \<and>
   auditLog (sandbox (snd (submitTask taskId now stamps role descr cmds w))) =
     auditLog (sandbox w) @ task_requests taskId role stamps 0 cmds \<and>
   length (auditLog (sandbox (snd (submitTask taskId now stamps role descr cmds w)))) =
     length (auditLog (sandbox w)) + length cmds"
  by (simp add: validate_sandbox validate_auditLog_irrelevant submitTask_auditLog
      length_task_requests)

theorem validate_appends_one_audit_record_witness:
  "status (fst blocked_submission) = S_blocked \<and>
   map request_id (auditLog (sandbox (snd blocked_submission))) =
     [''task-1-cmd-0'', ''task-1-cmd-1''] \<and>
   map command (auditLog (sandbox (snd blocked_submission))) = [''ls'', ''rm'']"
proof -
  have blocked: "status (fst blocked_submission) = S_blocked"
    using blocked_submission_has_blocked
    by (simp add: blocked_submission_def submitTask_status)
  have digits: "string_of_nat 0 = ''0''" "string_of_nat (Suc 0) = ''1''"
    by (simp_all add: string_of_nat.simps char_of_eq_iff)
  have "auditLog (sandbox (new_World None None None)) = []"
    by (simp add: new_World_def new_CommandSandbox_def)
  with validate_appends_one_audit_record
      [of _ _ _ "''task-1''" 0 "\<lambda>i. 0" "''cleanup-agent''" "''Remove temporary files''"
          "[(''ls'', [''-la'']), (''rm'', [''-rf'', ''/tmp/data''])]" "new_World None None None"]
  have "auditLog (sandbox (snd blocked_submission)) =
          task_requests ''task-1'' ''cleanup-agent'' (\<lambda>i. 0) 0
            [(''ls'', [''-la'']), (''rm'', [''-rf'', ''/tmp/data''])]"
    by (simp add: blocked_submission_def)
  then show ?thesis
    using blocked by (simp add: task_requests_Cons task_requests_Nil make_request_def digits)
qed

section \<open>What \<^verbatim>\<open>executeTask\<close> computes\<close>

lemma run_commands_returning:
  "run_commands (returning exec) clock i cmds task b =
     (let calls = backend_run exec b cmds;
          task1 = task\<lparr>results := results task @ to_results clock i (until_failure calls)\<rparr>
      in if all_succeed calls
         then (Finished, task1, if calls = [] then b else snd (last calls))
         else (Returned_early, task1\<lparr>status := S_failed\<rparr>, snd (last (until_failure calls))))"
proof (induction cmds arbitrary: i task b)
  case Nil
  then show ?case
    by (simp add: until_failure_def all_succeed_def to_results_def)
next
  case (Cons cmd rest)
  obtain r b1 where ex: "exec b (fst cmd) (snd cmd) = (r, b1)"
    by (cases "exec b (fst cmd) (snd cmd)")
  then have ret: "returning exec b (fst cmd) (snd cmd) = (Returns r, b1)"
    by (simp add: returning_def)
  show ?case
  proof (cases "exec_success r")
    case False
    then show ?thesis
      by (simp add: ex ret until_failure_def all_succeed_def to_results_def
          to_result_def Let_def)
  next
    case True
    then show ?thesis
      by (simp add: ex ret Cons.IH until_failure_def all_succeed_def to_results_def
          to_result_def Let_def)
  qed
qed

lemma length_until_failure:
  "length (until_failure calls) = min (Suc (length (takeWhile (exec_success \<circ> fst) calls))) (length calls)"
  by (simp add: until_failure_def)

lemma until_failure_all: "all_succeed calls \<Longrightarrow> until_failure calls = calls"
  by (simp add: until_failure_def all_succeed_def)

lemma first_failure:
  assumes "\<not> all_succeed calls"
  shows "length (takeWhile (exec_success \<circ> fst) calls) < length calls"
    and "\<not> exec_success (fst (calls ! length (takeWhile (exec_success \<circ> fst) calls)))"
    and "until_failure calls \<noteq> []"
    and "\<not> exec_success (fst (last (until_failure calls)))"
proof -
  let ?n = "length (takeWhile (exec_success \<circ> fst) calls)"
  show lt: "?n < length calls"
    using assms length_takeWhile_le [of "exec_success \<circ> fst" calls]
    by (simp add: all_succeed_def)
  show nth: "\<not> exec_success (fst (calls ! ?n))"
    using nth_length_takeWhile [OF lt] by simp
  show ne: "until_failure calls \<noteq> []"
    using lt by (auto simp: until_failure_def)
  have "last (until_failure calls) = calls ! ?n"
    using lt by (simp add: until_failure_def take_Suc_conv_app_nth)
  then show "\<not> exec_success (fst (last (until_failure calls)))"
    using nth by simp
qed

lemma executeTask_returning:
  assumes "map_of (tasks (runner w)) taskId = Some task" and "status task = S_approved"
  shows "executeTask (returning exec) clock doneAt taskId w b =
     (let calls = backend_run exec b (commands task);
          final = task\<lparr>results := results task @ to_results clock 0 (until_failure calls),
                       status := (if all_succeed calls then S_completed else S_failed),
                       completedAt := (if all_succeed calls then Some doneAt else completedAt task)\<rparr>
      in (Inr final, set_tasks (AList.update taskId final (tasks (runner w))) w,
          if calls = [] then b else snd (last (until_failure calls))))"
  using assms
  by (auto simp: executeTask_def run_commands_returning Let_def until_failure_all
      all_succeed_def)

lemma executeTask_refused:
  assumes "\<forall>task. map_of (tasks (runner w)) taskId = Some task \<longrightarrow> status task \<noteq> S_approved"
  shows "\<exists>e. executeTask exec clock doneAt taskId w b = (Inl e, w, b)"
  using assms by (auto simp: executeTask_def split: option.splits)

lemma approveTask_refused:
  assumes "\<forall>task. map_of (tasks (runner w)) taskId = Some task \<longrightarrow> status task \<noteq> S_awaiting_approval"
  shows "approveTask taskId operator w = (False, w)"
  using assms by (auto simp: approveTask_def split: option.splits)

lemma rejectTask_refused:
  assumes "\<forall>task. map_of (tasks (runner w)) taskId = Some task \<longrightarrow> status task \<noteq> S_awaiting_approval"
  shows "rejectTask taskId why w = (False, w)"
  using assms by (auto simp: rejectTask_def split: option.splits)

lemma tasks_run_callback: "tasks (runner (run_callback taskId v w)) = tasks (runner w)"
  by (simp add: run_callback_def set_callbacks_def split: option.splits)

lemma approveTask_accepted:
  assumes "map_of (tasks (runner w)) taskId = Some task" and "status task = S_awaiting_approval"
  shows "fst (approveTask taskId operator w) = True"
    and "tasks (runner (snd (approveTask taskId operator w))) =
           AList.update taskId (task\<lparr>status := S_approved\<rparr>) (tasks (runner w))"
    and "map_of (tasks (runner (snd (approveTask taskId operator w)))) taskId =
           Some (task\<lparr>status := S_approved\<rparr>)"
  using assms
  by (simp_all add: approveTask_def tasks_run_callback set_tasks_def update_conv')

lemma approveTask_True:
  assumes "approveTask taskId operator w = (True, w1)"
  shows "\<exists>task. map_of (tasks (runner w)) taskId = Some task \<and> status task = S_awaiting_approval \<and>
           map_of (tasks (runner w1)) taskId = Some (task\<lparr>status := S_approved\<rparr>)"
proof (cases "map_of (tasks (runner w)) taskId")
  case None
  then show ?thesis using assms by (simp add: approveTask_def)
next
  case (Some task)
  then have st: "status task = S_awaiting_approval"
    using assms by (auto simp: approveTask_def split: if_splits)
  from approveTask_accepted(3) [OF Some st, of operator] assms Some st
  show ?thesis by simp
qed

lemma first_failure_before:
  assumes "\<not> all_succeed calls"
  shows "butlast (until_failure calls) = takeWhile (exec_success \<circ> fst) calls"
proof -
  let ?n = "length (takeWhile (exec_success \<circ> fst) calls)"
  have "?n < length calls" using assms by (rule first_failure(1))
  then have "until_failure calls = take ?n calls @ [calls ! ?n]"
    by (simp add: until_failure_def take_Suc_conv_app_nth)
  then show ?thesis
    by (simp add: takeWhile_eq_take [symmetric])
qed

section \<open>Scenario D, evaluated\<close>

lemma git_clean:
  assumes "command r = ''git''" and "args r = [a]"
    and "a = ''commit'' \<or> a = ''push'' \<or> a = ''status''"
  shows "all_violations r new_CommandSandbox = []"
proof -
  have cl: "command_lower r = ''git''"
    using assms(1) by (simp add: string_eval)
  have k1: "filter (blocked_hit ''git'' ''git commit'') BLOCKED_COMMANDS = []"
    by (simp add: BLOCKED_COMMANDS_def keyword_eval)
  have p1: "filter (\<lambda>p. test p ''git commit'') DANGEROUS_PATTERNS = []"
    by (simp add: DANGEROUS_PATTERNS_def pattern_eval)
  have k2: "filter (blocked_hit ''git'' ''git push'') BLOCKED_COMMANDS = []"
    by (simp add: BLOCKED_COMMANDS_def keyword_eval)
  have p2: "filter (\<lambda>p. test p ''git push'') DANGEROUS_PATTERNS = []"
    by (simp add: DANGEROUS_PATTERNS_def pattern_eval)
  have k3: "filter (blocked_hit ''git'' ''git status'') BLOCKED_COMMANDS = []"
    by (simp add: BLOCKED_COMMANDS_def keyword_eval)
  have p3: "filter (\<lambda>p. test p ''git status'') DANGEROUS_PATTERNS = []"
    by (simp add: DANGEROUS_PATTERNS_def pattern_eval)
  from assms(3) consider "a = ''commit''" | "a = ''push''" | "a = ''status''" by blast
  then show ?thesis
  proof cases
    case 1
    then have "full_command r = ''git commit''"
      using assms(1,2) by (simp add: string_eval)
    then show ?thesis
      by (simp add: all_violations_def cl k1 p1 default_blockedCommands default_dangerousPatterns)
  next
    case 2
    then have "full_command r = ''git push''"
      using assms(1,2) by (simp add: string_eval)
    then show ?thesis
      by (simp add: all_violations_def cl k2 p2 default_blockedCommands default_dangerousPatterns)
  next
    case 3
    then have "full_command r = ''git status''"
      using assms(1,2) by (simp add: string_eval)
    then show ?thesis
      by (simp add: all_violations_def cl k3 p3 default_blockedCommands default_dangerousPatterns)
  qed
qed

lemma scenario_D_stored:
  "map_of (tasks (runner scenario_D_submitted)) ''task-7'' = Some scenario_D_task"
  by (simp add: scenario_D_submitted_def scenario_D_task_def submitTask_stored)

lemma scenario_D_awaiting: "status scenario_D_task = S_awaiting_approval"
proof -
  have "riskLevel (fst (validate r new_CommandSandbox)) \<noteq> R_blocked"
    if "r \<in> set (task_requests ''task-7'' ''release-agent'' (\<lambda>i. 0) 0 scenario_D_commands)" for r
  proof -
    have "all_violations r new_CommandSandbox = []"
      using that
      by (auto simp: scenario_D_commands_def task_requests_Cons task_requests_Nil make_request_def
          intro!: git_clean)
    then show ?thesis by (simp add: validate_blocked_iff)
  qed
  moreover have "requireApprovalForAll (config (runner (new_World None None None)))"
    by (simp add: new_World_def new_TaskRunner_def DEFAULT_CONFIG_def)
  moreover have "sandbox (new_World None None None) = new_CommandSandbox"
    by (simp add: new_World_def)
  ultimately show ?thesis
    by (auto simp: scenario_D_task_def submitTask_status)
qed

lemma scenario_D_fields:
  "commands scenario_D_task = scenario_D_commands" "results scenario_D_task = []"
  "completedAt scenario_D_task = None"
  by (simp_all add: scenario_D_task_def submitTask_fields)

lemma scenario_D_approve:
  "approveTask ''task-7'' ''operator'' scenario_D_submitted = (True, scenario_D_approved)"
  using approveTask_accepted(1) [OF scenario_D_stored scenario_D_awaiting, of "''operator''"]
  by (simp add: scenario_D_approved_def prod_eq_iff)

lemma scenario_D_approved_stored:
  "map_of (tasks (runner scenario_D_approved)) ''task-7'' =
     Some (scenario_D_task\<lparr>status := S_approved\<rparr>)"
  using approveTask_accepted(3) [OF scenario_D_stored scenario_D_awaiting, of "''operator''"]
  by (simp add: scenario_D_approved_def)

section \<open>Claims about the task state machine\<close>

text \<open>
  C7. For a task in the status approved and a backend that answers every call,
  \<^verbatim>\<open>executeTask\<close> calls the backend for the commands in their order, up to and
  including the first call that reports failure and for no command after it: the state
  the backend is left in is the state after that call. It appends one result per call
  made, in order. If a call reports failure the status becomes failed, the failing result
  is the last one and the completion time stays unset; if every call succeeds the status
  becomes completed and the completion time is set. The task in the runner's map is the
  task returned.
\<close>

theorem executeTask_runs_in_order_and_fails_fast:
  fixes exec :: "'b \<Rightarrow> string \<Rightarrow> string list \<Rightarrow> ExecResult \<times> 'b" and b :: 'b
  assumes "map_of (tasks (runner w)) taskId = Some task" and "status task = S_approved"
  defines "calls \<equiv> backend_run exec b (commands task)"
  defines "made \<equiv> until_failure calls"
  shows "\<exists>final.
     executeTask (returning exec) clock doneAt taskId w b =
       (Inr final, set_tasks (AList.update taskId final (tasks (runner w))) w,
        if made = [] then b else snd (last made)) \<and>
     results final = results task @ to_results clock 0 made \<and>
     length (results final) = length (results task) + length made \<and>
     made = take (length made) calls \<and>
     (all_succeed calls \<longrightarrow>
        made = calls \<and> status final = S_completed \<and> completedAt final = Some doneAt) \<and>
     (\<not> all_succeed calls \<longrightarrow>
        status final = S_failed \<and> completedAt final = completedAt task \<and>
        made \<noteq> [] \<and> \<not> exec_success (fst (last made)) \<and>
        (\<forall>x \<in> set (butlast made). exec_success (fst x)))"
proof -
  let ?final = "task\<lparr>results := results task @ to_results clock 0 made,
                     status := (if all_succeed calls then S_completed else S_failed),
                     completedAt := (if all_succeed calls then Some doneAt else completedAt task)\<rparr>"
  have empty: "made = [] \<longleftrightarrow> calls = []"
    by (cases calls) (simp_all add: made_def until_failure_def)
  have run: "executeTask (returning exec) clock doneAt taskId w b =
       (Inr ?final, set_tasks (AList.update taskId ?final (tasks (runner w))) w,
        if made = [] then b else snd (last made))"
    using executeTask_returning [OF assms(1,2), of exec clock doneAt b]
    by (simp add: Let_def calls_def [symmetric] made_def [symmetric] empty)
  have prefix: "made = take (length made) calls"
    by (simp add: made_def until_failure_def min_def)
  have good: "made = calls" if "all_succeed calls"
    using that by (simp add: made_def until_failure_all)
  have bad: "made \<noteq> [] \<and> \<not> exec_success (fst (last made)) \<and>
             (\<forall>x \<in> set (butlast made). exec_success (fst x))" if "\<not> all_succeed calls"
  proof -
    have "\<forall>x \<in> set (takeWhile (exec_success \<circ> fst) calls). exec_success (fst x)"
      by (auto dest: set_takeWhileD)
    then show ?thesis
      using first_failure(3,4) [OF that] first_failure_before [OF that]
      by (simp add: made_def)
  qed
  show ?thesis
    using run prefix good bad
    by (intro exI[of _ ?final]) (simp add: to_results_def)
qed

theorem executeTask_runs_in_order_and_fails_fast_witness:
  "map_of (tasks (runner scenario_D_approved)) ''task-7'' = Some (scenario_D_task\<lparr>status := S_approved\<rparr>) \<and>
   commands scenario_D_task =
     [(''git'', [''commit'']), (''git'', [''push'']), (''git'', [''status''])] \<and>
   (\<exists>final. fst scenario_D_run = Inr final \<and> status final = S_failed \<and>
      completedAt final = None \<and>
      map commandIndex (results final) = [0, 1] \<and>
      map success (results final) = [True, False] \<and>
      map_of (tasks (runner (fst (snd scenario_D_run)))) ''task-7'' = Some final) \<and>
   snd (snd scenario_D_run) = [(''git'', [''commit'']), (''git'', [''push''])]"
proof -
  let ?task = "scenario_D_task\<lparr>status := S_approved\<rparr>"
  have cmds: "commands ?task = scenario_D_commands"
    by (simp add: scenario_D_fields)
  have calls: "backend_run push_fails [] scenario_D_commands =
     [(\<lparr>exec_success = True, exec_output = Some ''ok'', exec_error = None\<rparr>,
         [(''git'', [''commit''])]),
      (\<lparr>exec_success = False, exec_output = None, exec_error = Some ''remote rejected''\<rparr>,
         [(''git'', [''commit'']), (''git'', [''push''])]),
      (\<lparr>exec_success = True, exec_output = Some ''ok'', exec_error = None\<rparr>,
         [(''git'', [''commit'']), (''git'', [''push'']), (''git'', [''status''])])]"
    by (simp add: scenario_D_commands_def push_fails_def)
  have made: "until_failure (backend_run push_fails [] scenario_D_commands) =
     [(\<lparr>exec_success = True, exec_output = Some ''ok'', exec_error = None\<rparr>,
         [(''git'', [''commit''])]),
      (\<lparr>exec_success = False, exec_output = None, exec_error = Some ''remote rejected''\<rparr>,
         [(''git'', [''commit'']), (''git'', [''push''])])]"
    by (simp add: calls until_failure_def)
  have fails: "\<not> all_succeed (backend_run push_fails [] scenario_D_commands)"
    by (simp add: calls all_succeed_def)
  from executeTask_runs_in_order_and_fails_fast
         [OF scenario_D_approved_stored, where exec = push_fails and b = "[]"
            and clock = "\<lambda>i. 100 + i" and doneAt = 200]
  obtain final where
    run: "scenario_D_run =
            (Inr final,
             set_tasks (AList.update ''task-7'' final (tasks (runner scenario_D_approved)))
               scenario_D_approved,
             [(''git'', [''commit'']), (''git'', [''push''])])"
    and res: "results final = results ?task @
                to_results (\<lambda>i. 100 + i) 0 (until_failure (backend_run push_fails [] scenario_D_commands))"
    and st: "status final = S_failed" and ca: "completedAt final = completedAt ?task"
    using fails by (auto simp: scenario_D_run_def made scenario_D_fields)
  have r1: "map commandIndex (results final) = [0, 1]"
    and r2: "map success (results final) = [True, False]"
    by (simp_all add: res made scenario_D_fields to_results_def to_result_def)
  have stored: "map_of (tasks (runner (fst (snd scenario_D_run)))) ''task-7'' = Some final"
    by (simp add: run set_tasks_def update_conv')
  have out: "fst scenario_D_run = Inr final"
    and log: "snd (snd scenario_D_run) = [(''git'', [''commit'']), (''git'', [''push''])]"
    by (simp_all add: run)
  have unset: "completedAt final = None"
    using ca by (simp add: scenario_D_fields)
  have cmds3: "commands scenario_D_task =
     [(''git'', [''commit'']), (''git'', [''push'']), (''git'', [''status''])]"
    by (simp add: scenario_D_fields scenario_D_commands_def)
  show ?thesis
    by (intro conjI exI[of _ final])
       (rule scenario_D_approved_stored cmds3 out st unset r1 r2 stored log)+
qed

text \<open>
  C8. Approving or rejecting a task that is not awaiting approval returns \<open>False\<close>, and
  executing a task that is not approved fails with an error (the promise that
  \<^verbatim>\<open>executeTask\<close> returns is rejected); in each case nothing is done: the runner, the
  sandbox, the pending waits and the backend are as before. In particular a second
  approval of the same task returns \<open>False\<close> and leaves what the first one set.
\<close>

theorem invalid_transition_changes_nothing:
  "((\<forall>task. map_of (tasks (runner w)) taskId = Some task \<longrightarrow> status task \<noteq> S_awaiting_approval) \<longrightarrow>
      approveTask taskId operator w = (False, w) \<and> rejectTask taskId why w = (False, w)) \<and>
   ((\<forall>task. map_of (tasks (runner w)) taskId = Some task \<longrightarrow> status task \<noteq> S_approved) \<longrightarrow>
      (\<exists>e. executeTask exec clock doneAt taskId w b = (Inl e, w, b))) \<and>
   (approveTask taskId operator w = (True, w_approved) \<longrightarrow>
      approveTask taskId other w_approved = (False, w_approved) \<and> rejectTask taskId why w_approved = (False, w_approved))"
proof -
  have twice: "approveTask taskId other w_approved = (False, w_approved) \<and> rejectTask taskId why w_approved = (False, w_approved)"
    if "approveTask taskId operator w = (True, w_approved)"
  proof -
    from approveTask_True [OF that] obtain task where
      "map_of (tasks (runner w_approved)) taskId = Some (task\<lparr>status := S_approved\<rparr>)" by blast
    then show ?thesis
      by (simp add: approveTask_refused rejectTask_refused)
  qed
  show ?thesis
    using approveTask_refused [of w taskId operator] rejectTask_refused [of w taskId why]
      executeTask_refused [of w taskId exec clock doneAt b] twice
    by blast
qed

theorem invalid_transition_changes_nothing_witness:
  "approveTask ''task-7'' ''operator'' scenario_D_submitted = (True, scenario_D_approved) \<and>
   approveTask ''task-7'' ''someone else'' scenario_D_approved = (False, scenario_D_approved) \<and>
   rejectTask ''task-7'' None scenario_D_approved = (False, scenario_D_approved) \<and>
   (\<exists>e. executeTask (executeCommand :: unit backend) (\<lambda>i. i) 0 ''task-7'' scenario_D_submitted () =
           (Inl e, scenario_D_submitted, ()))"
proof -
  have not_approved: "\<forall>task. map_of (tasks (runner scenario_D_submitted)) ''task-7'' = Some task \<longrightarrow>
                        status task \<noteq> S_approved"
    by (simp add: scenario_D_stored scenario_D_awaiting)
  from invalid_transition_changes_nothing
         [where w = scenario_D_submitted and taskId = "''task-7''" and operator = "''operator''"
            and why = None and exec = "executeCommand :: unit backend" and clock = "\<lambda>i. i"
            and doneAt = 0 and b = "()" and w_approved = scenario_D_approved
            and other = "''someone else''"]
       scenario_D_approve not_approved
  show ?thesis by blast
qed

text \<open>
  C9. For a task awaiting approval, \<^verbatim>\<open>waitForApproval\<close> returns a pending promise;
  when its timeout fires with no decision taken, the promise resolves to \<open>False\<close> and the
  tasks of the runner are as before, the task still awaiting approval; approving it
  afterwards returns \<open>True\<close> and sets its status to approved.
\<close>

theorem wait_timeout_keeps_task_awaiting:
  fixes timeoutMs :: nat
  assumes "map_of (tasks (runner w)) taskId = Some task" and "status task = S_awaiting_approval"
  defines "h \<equiv> length (promises w)"
  defines "w1 \<equiv> snd (waitForApproval taskId timeoutMs w)"
  defines "w2 \<equiv> timeout_fires h w1"
  shows "fst (waitForApproval taskId timeoutMs w) = Waiting h \<and>
         h < length (promises w1) \<and> promises w1 ! h = None \<and>
         promises w2 ! h = Some False \<and>
         tasks (runner w2) = tasks (runner w) \<and>
         map_of (tasks (runner w2)) taskId = Some task \<and>
         fst (approveTask taskId operator w2) = True \<and>
         map_of (tasks (runner (snd (approveTask taskId operator w2)))) taskId =
           Some (task\<lparr>status := S_approved\<rparr>)"
proof -
  have w1: "w1 = set_callbacks (AList.update taskId h (approvalCallbacks (runner w)))
                   (w\<lparr>promises := promises w @ [None],
                      timers := AList.update h (taskId, timeoutMs) (timers w)\<rparr>)"
    and p: "fst (waitForApproval taskId timeoutMs w) = Waiting h"
    using assms(1,2) by (simp_all add: w1_def h_def waitForApproval_def Let_def)
  have timer: "map_of (timers w1) h = Some (taskId, timeoutMs)"
    by (simp add: w1 set_callbacks_def update_conv')
  have p1: "promises w1 = promises w @ [None]" and t1: "tasks (runner w1) = tasks (runner w)"
    by (simp_all add: w1 set_callbacks_def)
  have p2: "promises w2 = promises w @ [Some False]" and t2: "tasks (runner w2) = tasks (runner w)"
    by (simp_all add: w2_def timeout_fires_def timer [unfolded h_def] p1 t1 set_callbacks_def
        resolve_def h_def)
  have found: "map_of (tasks (runner w2)) taskId = Some task"
    using assms(1) by (simp add: t2)
  show ?thesis
    using p approveTask_accepted(1,3) [OF found assms(2), of operator] found
    by (simp add: p1 p2 t2 h_def)
qed

theorem wait_timeout_keeps_task_awaiting_witness:
  "map_of (tasks (runner scenario_D_submitted)) ''task-7'' = Some scenario_D_task \<and>
   status scenario_D_task = S_awaiting_approval \<and>
   fst (waitForApproval ''task-7'' 50 scenario_D_submitted) = Waiting 0 \<and>
   promises (timeout_fires 0 (snd (waitForApproval ''task-7'' 50 scenario_D_submitted))) ! 0 =
     Some False \<and>
   map_of (tasks (runner (timeout_fires 0 (snd (waitForApproval ''task-7'' 50 scenario_D_submitted)))))
     ''task-7'' = Some scenario_D_task \<and>
   fst (approveTask ''task-7'' ''operator''
          (timeout_fires 0 (snd (waitForApproval ''task-7'' 50 scenario_D_submitted)))) = True"
proof -
  have "promises scenario_D_submitted = []"
    by (simp add: scenario_D_submitted_def submitTask_world set_tasks_def new_World_def)
  with wait_timeout_keeps_task_awaiting
         [OF scenario_D_stored scenario_D_awaiting, where timeoutMs = 50
            and operator = "''operator''"]
       scenario_D_stored scenario_D_awaiting
  show ?thesis by simp
qed

section \<open>The configuration fields that nothing reads\<close>

lemma retune_reads:
  "sandbox (retune m a w) = sandbox w"
  "tasks (runner (retune m a w)) = tasks (runner w)"
  "approvalCallbacks (runner (retune m a w)) = approvalCallbacks (runner w)"
  "requireApprovalForAll (config (runner (retune m a w))) = requireApprovalForAll (config (runner w))"
  "promises (retune m a w) = promises w"
  "timers (retune m a w) = timers w"
  by (simp_all add: retune_def)

lemma retune_set_tasks: "set_tasks ts (retune m a w) = retune m a (set_tasks ts w)"
  by (simp add: retune_def set_tasks_def)

lemma retune_set_callbacks: "set_callbacks cbs (retune m a w) = retune m a (set_callbacks cbs w)"
  by (simp add: retune_def set_callbacks_def)

lemma retune_sandbox: "(retune m a w)\<lparr>sandbox := sb\<rparr> = retune m a (w\<lparr>sandbox := sb\<rparr>)"
  by (simp add: retune_def)

lemma retune_waits:
  "(retune m a w)\<lparr>timers := ts, promises := ps\<rparr> = retune m a (w\<lparr>timers := ts, promises := ps\<rparr>)"
  "(retune m a w)\<lparr>promises := ps, timers := ts\<rparr> = retune m a (w\<lparr>promises := ps, timers := ts\<rparr>)"
  by (simp_all add: retune_def)

lemma submitTask_retune:
  "submitTask taskId now stamps role descr cmds (retune m a w) =
     (fst (submitTask taskId now stamps role descr cmds w),
      retune m a (snd (submitTask taskId now stamps role descr cmds w)))"
  by (simp add: submitTask_def Let_def retune_reads retune_set_tasks retune_sandbox
      split: prod.splits)

lemma run_callback_retune:
  "run_callback taskId v (retune m a w) = retune m a (run_callback taskId v w)"
  by (simp add: run_callback_def retune_reads retune_set_callbacks retune_waits
      split: option.splits)

lemma approveTask_retune:
  "approveTask taskId operator (retune m a w) =
     (fst (approveTask taskId operator w), retune m a (snd (approveTask taskId operator w)))"
  by (simp add: approveTask_def retune_reads retune_set_tasks run_callback_retune
      split: option.splits)

lemma rejectTask_retune:
  "rejectTask taskId why (retune m a w) =
     (fst (rejectTask taskId why w), retune m a (snd (rejectTask taskId why w)))"
  by (simp add: rejectTask_def retune_reads retune_set_tasks run_callback_retune
      split: option.splits)

lemma executeTask_retune:
  "executeTask exec clock doneAt taskId (retune m a w) b =
     (case executeTask exec clock doneAt taskId w b of (r, w1, b1) \<Rightarrow> (r, retune m a w1, b1))"
  by (simp add: executeTask_def Let_def retune_reads retune_set_tasks
      split: option.splits prod.splits loop_exit.splits)

lemma waitForApproval_retune:
  "waitForApproval taskId timeoutMs (retune m a w) =
     (fst (waitForApproval taskId timeoutMs w), retune m a (snd (waitForApproval taskId timeoutMs w)))"
  by (simp add: waitForApproval_def Let_def retune_reads retune_set_callbacks retune_waits
      split: option.splits)

lemma timeout_fires_retune: "timeout_fires h (retune m a w) = retune m a (timeout_fires h w)"
  by (simp add: timeout_fires_def retune_reads retune_set_callbacks retune_waits
      split: option.splits prod.splits)

lemma step_retune:
  "step x (retune m a w, b) =
     (case step x (w, b) of (seen, w1, b1) \<Rightarrow> (seen, retune m a w1, b1))"
  by (cases x)
     (simp_all add: submitTask_retune approveTask_retune rejectTask_retune executeTask_retune
        waitForApproval_retune timeout_fires_retune getTask_def getPendingApprovals_def
        getTaskHistory_def retune_reads split: prod.splits)

lemma run_retune:
  "run xs (retune m a w, b) =
     (case run xs (w, b) of (seens, w1, b1) \<Rightarrow> (seens, retune m a w1, b1))"
proof (induction xs arbitrary: w b)
  case Nil
  then show ?case by simp
next
  case (Cons x xs)
  obtain seen w1 b1 where s: "step x (w, b) = (seen, w1, b1)"
    by (cases "step x (w, b)")
  obtain seens w2 b2 where r: "run xs (w1, b1) = (seens, w2, b2)"
    by (cases "run xs (w1, b1)")
  show ?case
    by (simp add: step_retune s Cons.IH r)
qed

lemma new_World_retune:
  "new_World approvalForAll maxPending autoReject =
     retune (case maxPending of None \<Rightarrow> 10 | Some v \<Rightarrow> v)
            (case autoReject of None \<Rightarrow> True | Some v \<Rightarrow> v)
            (new_World approvalForAll None None)"
  by (cases maxPending; cases autoReject)
     (simp_all add: new_World_def new_TaskRunner_def retune_def DEFAULT_CONFIG_def)

text \<open>
  C10. The configuration fields \<^verbatim>\<open>maxPendingTasks\<close> and
  \<^verbatim>\<open>autoRejectBlockedTasks\<close> have no effect: from two states that differ in these two
  fields only, every sequence of operations shows the caller the same values and ends in
  states that again differ in these two fields only; two runners constructed with
  configurations that differ in them start from such states. No limit on pending tasks is
  enforced: a submitted task is always stored.
\<close>

theorem unused_config_fields_have_no_effect:
  "run xs (retune m a w, b) =
     (case run xs (w, b) of (seens, w1, b1) \<Rightarrow> (seens, retune m a w1, b1)) \<and>
   new_World approvalForAll maxPending autoReject =
     retune (case maxPending of None \<Rightarrow> 10 | Some v \<Rightarrow> v)
            (case autoReject of None \<Rightarrow> True | Some v \<Rightarrow> v)
            (new_World approvalForAll None None) \<and>
   getTask taskId (snd (submitTask taskId now stamps role descr cmds w)) =
     Some (fst (submitTask taskId now stamps role descr cmds w))"
  using run_retune [of xs m a w b] new_World_retune [of approvalForAll maxPending autoReject]
  by (simp add: getTask_def submitTask_stored)

theorem unused_config_fields_have_no_effect_witness:
  "maxPendingTasks (config (runner (new_World None (Some 0) (Some False)))) = 0 \<and>
   fst (run [Submit ''task-7'' 0 (\<lambda>i. 0) ''release-agent'' ''Commit and push'' scenario_D_commands,
             GetPendingApprovals]
          (new_World None (Some 0) (Some False), ())) =
     [Task_returned scenario_D_task, Task_list [scenario_D_task]] \<and>
   fst (run [Submit ''task-7'' 0 (\<lambda>i. 0) ''release-agent'' ''Commit and push'' scenario_D_commands,
             GetPendingApprovals]
          (new_World None None None, ())) =
     [Task_returned scenario_D_task, Task_list [scenario_D_task]]"
proof -
  let ?ops = "[Submit ''task-7'' 0 (\<lambda>i. 0) ''release-agent'' ''Commit and push'' scenario_D_commands,
               GetPendingApprovals] :: unit operation list"
  have sub: "submitTask ''task-7'' 0 (\<lambda>i. 0) ''release-agent'' ''Commit and push''
               scenario_D_commands (new_World None None None) =
             (scenario_D_task, scenario_D_submitted)"
    by (simp add: scenario_D_task_def scenario_D_submitted_def)
  have "tasks (runner (new_World None None None)) = []"
    by (simp add: new_World_def new_TaskRunner_def)
  then have "tasks (runner scenario_D_submitted) = [(''task-7'', scenario_D_task)]"
    by (simp add: scenario_D_submitted_def submitTask_world set_tasks_def scenario_D_task_def)
  then have pend: "getPendingApprovals scenario_D_submitted = [scenario_D_task]"
    by (simp add: getPendingApprovals_def scenario_D_awaiting)
  have plain: "run ?ops (new_World None None None, ()) =
                 ([Task_returned scenario_D_task, Task_list [scenario_D_task]],
                  scenario_D_submitted, ())"
    by (simp add: sub pend)
  have limit: "maxPendingTasks (config (runner (new_World None (Some 0) (Some False)))) = 0"
    by (simp add: new_World_def new_TaskRunner_def)
  note inst = unused_config_fields_have_no_effect
         [where xs = ?ops and m = 0 and a = False and w = "new_World None None None" and b = "()"
            and approvalForAll = None and maxPending = "Some 0" and autoReject = "Some False"]
  from inst have start: "new_World None (Some 0) (Some False) =
                           retune 0 False (new_World None None None)"
    by (simp only: option.case)
  from inst have "run ?ops (retune 0 False (new_World None None None), ()) =
          (case run ?ops (new_World None None None, ()) of
             (seens, w1, b1) \<Rightarrow> (seens, retune 0 False w1, b1))"
    by (rule conjunct1)
  then have "run ?ops (new_World None (Some 0) (Some False), ()) =
          ([Task_returned scenario_D_task, Task_list [scenario_D_task]],
           retune 0 False scenario_D_submitted, ())"
    by (simp only: plain prod.case start)
  then show ?thesis
    using plain limit by (simp only: fst_conv simp_thms)
qed

end
